theory Spec2Isabelle
  imports Main "HOL-Library.Word" "HOL-Library.Sublist"
begin

section \<open>Strings of the program\<close>

text \<open>
  A JavaScript string is a sequence of UTF-16 code units; \<open>length\<close>, \<open>slice\<close>, \<open>split\<close>
  and the regular expressions of \<^verbatim>\<open>src/server.ts\<close> (none has the \<open>u\<close> flag) all work on
  code units. A code unit is a 16-bit word, a string a list of them.
\<close>

type_synonym cu = "16 word"
type_synonym jstring = "cu list"

text \<open>An ASCII literal of the source, as code units.\<close>

definition str :: "string \<Rightarrow> jstring" where
  "str cs = map of_char cs"

abbreviation NL :: cu where "NL \<equiv> 10"
abbreviation DQUOTE :: cu where "DQUOTE \<equiv> 34"
abbreviation DOT :: cu where "DOT \<equiv> 46"
abbreviation SLASH :: cu where "SLASH \<equiv> 47"
abbreviation COLON :: cu where "COLON \<equiv> 58"
abbreviation ELLIPSIS :: cu where "ELLIPSIS \<equiv> 0x2026"

subsection \<open>Character classes of ECMAScript regular expressions\<close>

text \<open>\<^verbatim>\<open>\d\<close> is \<^verbatim>\<open>[0-9]\<close>.\<close>

definition is_digit :: "cu \<Rightarrow> bool" where
  "is_digit c = (48 \<le> c \<and> c \<le> 57)"

text \<open>\<^verbatim>\<open>[A-Za-z_]\<close>, the first character of the Python-style identifier.\<close>

definition is_ident_start :: "cu \<Rightarrow> bool" where
  "is_ident_start c = ((65 \<le> c \<and> c \<le> 90) \<or> (97 \<le> c \<and> c \<le> 122) \<or> c = 95)"

text \<open>\<^verbatim>\<open>\w\<close> is \<^verbatim>\<open>[A-Za-z0-9_]\<close>.\<close>

definition is_word :: "cu \<Rightarrow> bool" where
  "is_word c = (is_ident_start c \<or> is_digit c)"

text \<open>\<^verbatim>\<open>[\w.]\<close>.\<close>

definition is_word_dot :: "cu \<Rightarrow> bool" where
  "is_word_dot c = (is_word c \<or> c = DOT)"

text \<open>
  The LineTerminator code points: LF, CR, U+2028, U+2029. With the \<open>m\<close> flag \<^verbatim>\<open>^\<close> matches
  after any of them; \<^verbatim>\<open>.\<close> matches none of them.
\<close>

definition is_line_terminator :: "cu \<Rightarrow> bool" where
  "is_line_terminator c = (c = 10 \<or> c = 13 \<or> c = 0x2028 \<or> c = 0x2029)"

text \<open>
  \<^verbatim>\<open>\s\<close>: WhiteSpace and LineTerminator (TAB, LF, VT, FF, CR, SP, NBSP, U+1680,
  U+2000..U+200A, U+2028, U+2029, U+202F, U+205F, U+3000, U+FEFF).
  \<^verbatim>\<open>String.prototype.trim\<close> strips the same set.
\<close>

definition is_space :: "cu \<Rightarrow> bool" where
  "is_space c = (c = 9 \<or> c = 10 \<or> c = 11 \<or> c = 12 \<or> c = 13 \<or> c = 32 \<or> c = 0xA0 \<or> c = 0x1680
     \<or> (0x2000 \<le> c \<and> c \<le> 0x200A) \<or> c = 0x2028 \<or> c = 0x2029 \<or> c = 0x202F \<or> c = 0x205F
     \<or> c = 0x3000 \<or> c = 0xFEFF)"

text \<open>\<^verbatim>\<open>[^\n]\<close>, \<^verbatim>\<open>[\s\S]\<close>, \<^verbatim>\<open>[^:\n]\<close>, \<^verbatim>\<open>[^"]\<close> and \<^verbatim>\<open>.\<close>.\<close>

definition not_nl :: "cu \<Rightarrow> bool" where
  "not_nl c = (c \<noteq> NL)"

definition any_cu :: "cu \<Rightarrow> bool" where
  "any_cu c = True"

definition not_colon_nl :: "cu \<Rightarrow> bool" where
  "not_colon_nl c = (c \<noteq> COLON \<and> c \<noteq> NL)"

definition not_dquote :: "cu \<Rightarrow> bool" where
  "not_dquote c = (c \<noteq> DQUOTE)"

definition dot_class :: "cu \<Rightarrow> bool" where
  "dot_class c = (\<not> is_line_terminator c)"

section \<open>The regular expressions, run by backtracking\<close>

text \<open>
  The patterns of \<^verbatim>\<open>src/server.ts\<close> are sequences of: a line or input boundary, a literal, a
  character class, a greedy \<^verbatim>\<open>*\<close> or \<^verbatim>\<open>+\<close> of a character class, and capture groups.
  A pattern is the list of its atoms, a capture group being the pair of markers \<open>Open k\<close>,
  \<open>Close k\<close> around its body.
\<close>

datatype atom =
    Bol                     \<comment> \<open>\<^verbatim>\<open>^\<close> with the \<open>m\<close> flag\<close>
  | Bos                     \<comment> \<open>\<^verbatim>\<open>^\<close> without it\<close>
  | Eos                     \<comment> \<open>\<^verbatim>\<open>$\<close> without the \<open>m\<close> flag\<close>
  | Lit jstring
  | One "cu \<Rightarrow> bool"
  | Star "cu \<Rightarrow> bool"
  | Plus "cu \<Rightarrow> bool"
  | Open nat
  | Close nat

text \<open>
  Captures: group number and captured text. While a group is open its text is collected
  (reversed) in the list of open groups.
\<close>

type_synonym captures = "(nat \<times> jstring) list"

definition adv :: "cu \<Rightarrow> captures \<Rightarrow> captures" where
  "adv x os = map (\<lambda>(k, acc). (k, x # acc)) os"

text \<open>
  \<open>rmatch p prev rest os cs\<close> matches pattern \<open>p\<close> at the current position: \<open>prev\<close> is the
  code unit before it (\<open>None\<close> at the start of the input), \<open>rest\<close> the input from it on.
  A greedy quantifier first tries to take one more code unit and falls back to stopping
  when the rest of the pattern then fails, which is the backtracking order of ECMAScript.
\<close>

fun rmatch :: "atom list \<Rightarrow> cu option \<Rightarrow> jstring \<Rightarrow> captures \<Rightarrow> captures \<Rightarrow> captures option" where
  "rmatch [] prev rest os cs = Some cs"
| "rmatch (Bol # p) prev rest os cs =
     (case prev of
        None \<Rightarrow> rmatch p prev rest os cs
      | Some c \<Rightarrow> if is_line_terminator c then rmatch p prev rest os cs else None)"
| "rmatch (Bos # p) prev rest os cs =
     (case prev of None \<Rightarrow> rmatch p prev rest os cs | Some c \<Rightarrow> None)"
| "rmatch (Eos # p) prev rest os cs =
     (case rest of [] \<Rightarrow> rmatch p prev rest os cs | x # xs \<Rightarrow> None)"
| "rmatch (Lit [] # p) prev rest os cs = rmatch p prev rest os cs"
| "rmatch (Lit (l # ls) # p) prev rest os cs =
     (case rest of
        [] \<Rightarrow> None
      | x # xs \<Rightarrow> if x = l then rmatch (Lit ls # p) (Some x) xs (adv x os) cs else None)"
| "rmatch (One c # p) prev rest os cs =
     (case rest of
        [] \<Rightarrow> None
      | x # xs \<Rightarrow> if c x then rmatch p (Some x) xs (adv x os) cs else None)"
| "rmatch (Star c # p) prev rest os cs =
     (case rest of
        [] \<Rightarrow> rmatch p prev rest os cs
      | x # xs \<Rightarrow>
          if c x then
            (case rmatch (Star c # p) (Some x) xs (adv x os) cs of
               Some r \<Rightarrow> Some r
             | None \<Rightarrow> rmatch p prev rest os cs)
          else rmatch p prev rest os cs)"
| "rmatch (Plus c # p) prev rest os cs =
     (case rest of
        [] \<Rightarrow> None
      | x # xs \<Rightarrow> if c x then rmatch (Star c # p) (Some x) xs (adv x os) cs else None)"
| "rmatch (Open k # p) prev rest os cs = rmatch p prev rest ((k, []) # os) cs"
| "rmatch (Close k # p) prev rest os cs =
     (case map_of os k of
        None \<Rightarrow> rmatch p prev rest os cs
      | Some acc \<Rightarrow> rmatch p prev rest (filter (\<lambda>(j, a). j \<noteq> k) os) ((k, rev acc) # cs))"

text \<open>
  \<^verbatim>\<open>RegExp.prototype.exec\<close> of a pattern without the \<open>g\<close> flag: the match is tried at
  index 0, 1, ... up to the length of the input, and the first index where it succeeds wins.
\<close>

fun re_search :: "atom list \<Rightarrow> cu option \<Rightarrow> jstring \<Rightarrow> captures option" where
  "re_search p prev [] = rmatch p prev [] [] []"
| "re_search p prev (x # xs) =
     (case rmatch p prev (x # xs) [] [] of
        Some r \<Rightarrow> Some r
      | None \<Rightarrow> re_search p (Some x) xs)"

definition re_exec :: "atom list \<Rightarrow> jstring \<Rightarrow> captures option" where
  "re_exec p s = re_search p None s"

definition re_test :: "atom list \<Rightarrow> jstring \<Rightarrow> bool" where
  "re_test p s = (re_exec p s \<noteq> None)"

text \<open>\<open>m[k]\<close> (or \<open>m.groups.name\<close> of the \<open>k\<close>-th group); \<open>None\<close> is \<open>undefined\<close>.\<close>

definition group :: "captures \<Rightarrow> nat \<Rightarrow> jstring option" where
  "group m k = map_of m k"

subsection \<open>The six patterns\<close>

text \<open>\<^verbatim>\<open>/^(?<type>[\w.]*Error):\s*(?<message>[^\n]+)\n(?<stack>[\s\S]+)/m\<close>\<close>

definition nodeRe :: "atom list" where
  "nodeRe = [Bol, Open 1, Star is_word_dot, Lit (str ''Error''), Close 1, Lit [COLON],
     Star is_space, Open 2, Plus not_nl, Close 2, Lit [NL], Open 3, Plus any_cu, Close 3]"

text \<open>\<^verbatim>\<open>/(\/[^:\n]+):(\d+):(\d+)/\<close>\<close>

definition locRe :: "atom list" where
  "locRe = [Open 1, Lit [SLASH], Plus not_colon_nl, Close 1, Lit [COLON],
     Open 2, Plus is_digit, Close 2, Lit [COLON], Open 3, Plus is_digit, Close 3]"

text \<open>\<^verbatim>\<open>/File \"([^\"]+)\", line (\d+)/\<close>\<close>

definition pyFile :: "atom list" where
  "pyFile = [Lit (str ''File '' @ [DQUOTE]), Open 1, Plus not_dquote, Close 1,
     Lit (DQUOTE # str '', line ''), Open 2, Plus is_digit, Close 2]"

text \<open>\<^verbatim>\<open>/Traceback \(most recent call last\):/m\<close>\<close>

definition tracebackRe :: "atom list" where
  "tracebackRe = [Lit (str ''Traceback (most recent call last):'')]"

text \<open>\<^verbatim>\<open>/^(?<type>[A-Za-z_][A-Za-z0-9_]*):\s*(?<message>.*)$/\<close>\<close>

definition pyTypeRe :: "atom list" where
  "pyTypeRe = [Bos, Open 1, One is_ident_start, Star is_word, Close 1, Lit [COLON],
     Star is_space, Open 2, Star dot_class, Close 2, Eos]"

text \<open>\<^verbatim>\<open>/^(?<type>[\w.]*Error):\s*(?<message>.*)$/\<close>\<close>

definition nodeLineRe :: "atom list" where
  "nodeLineRe = [Bos, Open 1, Star is_word_dot, Lit (str ''Error''), Close 1, Lit [COLON],
     Star is_space, Open 2, Star dot_class, Close 2, Eos]"

section \<open>Library functions of the source\<close>

text \<open>\<^verbatim>\<open>s.split("\n")\<close>: never empty, \<^verbatim>\<open>"".split("\n")\<close> is \<^verbatim>\<open>[""]\<close>.\<close>

fun split_nl :: "jstring \<Rightarrow> jstring list" where
  "split_nl [] = [[]]"
| "split_nl (c # cs) =
     (if c = NL then [] # split_nl cs
      else (case split_nl cs of [] \<Rightarrow> [[c]] | l # ls \<Rightarrow> (c # l) # ls))"

text \<open>\<^verbatim>\<open>s.trim()\<close>\<close>

definition trim :: "jstring \<Rightarrow> jstring" where
  "trim s = rev (dropWhile is_space (rev (dropWhile is_space s)))"

text \<open>
  \<^verbatim>\<open>Number(d)\<close> on a non-empty string of ASCII digits, the only strings the source passes
  (captures of \<^verbatim>\<open>(\d+)\<close>): the decimal value. (JavaScript rounds it to the nearest double, which
  is the value itself below \<open>2^53\<close>; the rounding of longer digit strings is not modelled.)
\<close>

definition Number :: "jstring \<Rightarrow> nat" where
  "Number d = foldl (\<lambda>n c. 10 * n + (unat c - 48)) 0 d"

text \<open>
  \<^verbatim>\<open>text.slice(0, e)\<close>: a negative end counts from the end of the string, and the end is
  clamped to the string.
\<close>

definition slice0 :: "jstring \<Rightarrow> int \<Rightarrow> jstring" where
  "slice0 text e =
     (let len = int (length text);
          fin = (if e < 0 then max (len + e) 0 else min e len)
      in take (nat fin) text)"

text \<open>\<^verbatim>\<open>parts.join("\n")\<close>\<close>

fun join_nl :: "jstring list \<Rightarrow> jstring" where
  "join_nl [] = []"
| "join_nl [p] = p"
| "join_nl (p # q # ps) = p @ NL # join_nl (q # ps)"

text \<open>An integer in a template literal: its decimal digits, with a minus sign when negative.\<close>

fun digits_of :: "nat \<Rightarrow> jstring" where
  "digits_of n = (if n < 10 then [48 + of_nat n] else digits_of (n div 10) @ [48 + of_nat (n mod 10)])"

definition show_int :: "int \<Rightarrow> jstring" where
  "show_int i = (if i < 0 then 45 # digits_of (nat (- i)) else digits_of (nat i))"

declare digits_of.simps [simp del]

section \<open>Data of the program\<close>

datatype runtime_family = node | python

text \<open>
  The object \<^verbatim>\<open>parseError\<close> returns. The Python branch builds it without a \<open>column\<close>
  property, which is \<open>column = None\<close> here.
\<close>

record error_record =
  runtime :: runtime_family
  type :: jstring
  message :: jstring
  "file" :: "jstring option"
  line :: "nat option"
  column :: "nat option"
  stack :: jstring

record payload =
  language :: runtime_family
  command :: jstring
  cwd :: jstring
  exitCode :: "int option"
  timedOut :: bool
  stdout :: jstring
  stderr :: jstring
  error :: "error_record option"

text \<open>
  The handler reads the file system and spawns a child; both are parameters of the model.
  \<open>execa\<close> is given the command, its arguments, the working directory and the timeout, and
  either throws (the message of the error) or resolves to the child's result; with
  \<^verbatim>\<open>reject: false\<close> a child that fails or is killed resolves. \<open>exit_code = None\<close> is
  an \<open>exitCode\<close> that is not a number.
\<close>

record child_result =
  child_stdout :: jstring
  child_stderr :: jstring
  exit_code :: "int option"
  timed_out :: bool

datatype exec_outcome = Throws jstring | Resolves child_result

record world =
  path_resolve :: "jstring \<Rightarrow> jstring"
  path_resolve2 :: "jstring \<Rightarrow> jstring \<Rightarrow> jstring"
  process_cwd :: jstring
  existsSync :: "jstring \<Rightarrow> bool"
  execa :: "jstring \<Rightarrow> jstring list \<Rightarrow> jstring \<Rightarrow> int \<Rightarrow> exec_outcome"

text \<open>
  The arguments of the tool (\<open>DebugArgs\<close>); \<open>arg_language\<close> and \<open>arg_cwd\<close> are its
  \<open>language\<close> and \<open>cwd\<close>.
\<close>

record DebugArgs =
  arg_language :: runtime_family
  entry :: "jstring option"
  args :: "jstring list option"
  arg_cwd :: "jstring option"
  timeoutMs :: "int option"

text \<open>
  The items of \<open>content\<close>: a text, the text \<^verbatim>\<open>JSON.stringify(payload, null, 2)\<close> (kept as the
  payload it serialises) and a resource link (the path it points to and its description;
  \<open>uri\<close>, \<open>name\<close> and \<open>mimeType\<close> are computed from the path).
\<close>

datatype content_item = Text jstring | PayloadJson payload | ResourceLink jstring jstring

record tool_result =
  content :: "content_item list"
  isError :: bool

section \<open>\<^verbatim>\<open>parseError\<close>\<close>

text \<open>The \<^verbatim>\<open>for (const line of lines)\<close> loop over \<open>lastFile\<close>, \<open>lastLine\<close>.\<close>

fun scan_lines :: "jstring list \<Rightarrow> jstring option \<times> nat option \<Rightarrow> jstring option \<times> nat option" where
  "scan_lines [] acc = acc"
| "scan_lines (l # ls) acc =
     (case re_exec pyFile l of
        Some m \<Rightarrow> scan_lines ls (group m 1, map_option Number (group m 2))
      | None \<Rightarrow> scan_lines ls acc)"

text \<open>\<^verbatim>\<open>lines.reverse().find((l) => l.trim().length > 0) ?? ""\<close>\<close>

definition lastLineText :: "jstring list \<Rightarrow> jstring" where
  "lastLineText lines =
     (case find (\<lambda>l. length (trim l) > 0) (rev lines) of Some l \<Rightarrow> l | None \<Rightarrow> [])"

definition parseError :: "jstring option \<Rightarrow> error_record option" where
  "parseError input =
     (case input of
        None \<Rightarrow> None
      | Some s \<Rightarrow>
          if s = [] then None
          else
            (case re_exec nodeRe s of
               Some nodeMatch \<Rightarrow>
                 (case (group nodeMatch 1, group nodeMatch 2, group nodeMatch 3) of
                    (Some ty, Some msg, Some st) \<Rightarrow>
                      (let loc = re_exec locRe st in
                       Some \<lparr> runtime = node, type = ty, message = msg,
                              file = (case loc of None \<Rightarrow> None | Some l \<Rightarrow> group l 1),
                              line = (case loc of None \<Rightarrow> None | Some l \<Rightarrow> map_option Number (group l 2)),
                              column = (case loc of None \<Rightarrow> None | Some l \<Rightarrow> map_option Number (group l 3)),
                              stack = st \<rparr>)
                  | _ \<Rightarrow> None)
             | None \<Rightarrow>
                 if re_test tracebackRe s then
                   (let lines = split_nl s;
                        (lastFile, lastLine) = scan_lines lines (None, None);
                        lastText = lastLineText lines;
                        errTypeMsg = re_exec pyTypeRe lastText
                    in Some \<lparr> runtime = python,
                              type = (case errTypeMsg of
                                        Some g \<Rightarrow> (case group g 1 of Some t \<Rightarrow> t | None \<Rightarrow> str ''Error'')
                                      | None \<Rightarrow> str ''Error''),
                              message = (case errTypeMsg of
                                           Some g \<Rightarrow> (case group g 2 of Some t \<Rightarrow> t | None \<Rightarrow> lastText)
                                         | None \<Rightarrow> lastText),
                              file = lastFile, line = lastLine, column = None,
                              stack = s \<rparr>)
                 else None))"

section \<open>\<^verbatim>\<open>summarizeStack\<close>\<close>

definition firstLine :: "jstring \<Rightarrow> jstring" where
  "firstLine trace =
     (case find (\<lambda>l. length (trim l) > 0) (split_nl trace) of Some l \<Rightarrow> l | None \<Rightarrow> [])"

text \<open>A captured group inside a template literal; \<open>undefined\<close> prints as such.\<close>

definition tmpl :: "jstring option \<Rightarrow> jstring" where
  "tmpl g = (case g of Some t \<Rightarrow> t | None \<Rightarrow> str ''undefined'')"

text \<open>\<^verbatim>\<open>if (g?.type)\<close>: the group is there and is not the empty string.\<close>

definition truthy_type :: "captures option \<Rightarrow> bool" where
  "truthy_type g = (case g of None \<Rightarrow> False
                    | Some m \<Rightarrow> (case group m 1 of None \<Rightarrow> False | Some t \<Rightarrow> t \<noteq> []))"

definition summarizeStack :: "jstring \<Rightarrow> jstring" where
  "summarizeStack trace =
     (let fl = firstLine trace;
          nd = re_exec nodeLineRe fl;
          py = re_exec pyTypeRe fl
      in if truthy_type nd then
           (case nd of Some m \<Rightarrow> tmpl (group m 1) @ str '': '' @ tmpl (group m 2) | None \<Rightarrow> [])
         else if truthy_type py then
           (case py of Some m \<Rightarrow> tmpl (group m 1) @ str '': '' @ tmpl (group m 2) | None \<Rightarrow> [])
         else if fl \<noteq> [] then fl
         else slice0 trace 200)"

section \<open>\<^verbatim>\<open>truncate\<close> and \<^verbatim>\<open>renderSummary\<close>\<close>

text \<open>The literal \<^verbatim>\<open>"\n\<close>\<open>\<dots>\<close>\<^verbatim>\<open>[truncated]"\<close>: a line feed, U+2026 and eleven ASCII characters.\<close>

definition truncation_marker :: jstring where
  "truncation_marker = NL # ELLIPSIS # str ''[truncated]''"

definition truncate :: "jstring \<Rightarrow> int \<Rightarrow> jstring" where
  "truncate text mx =
     (if int (length text) \<le> mx then text
      else slice0 text (mx - 20) @ truncation_marker)"

text \<open>The array \<open>parts\<close> of \<^verbatim>\<open>renderSummary\<close>, in the order of its \<open>push\<close> calls.\<close>

definition render_parts :: "payload \<Rightarrow> jstring list" where
  "render_parts p =
     [str ''Command: '' @ command p,
      str ''CWD: '' @ cwd p,
      str ''Exit: '' @ (case exitCode p of None \<Rightarrow> str ''null'' | Some c \<Rightarrow> show_int c)
        @ (if timedOut p then str '' (timed out)'' else [])]
     @ (case error p of
          None \<Rightarrow> []
        | Some e \<Rightarrow>
            [str ''Error: '' @ type e @ str '': '' @ message e]
            @ (case file e of
                 None \<Rightarrow> []
               | Some f \<Rightarrow>
                   if f \<noteq> [] then
                     [str ''File: '' @ f @ COLON #
                        (case line e of None \<Rightarrow> str ''?'' | Some n \<Rightarrow> show_int (int n))]
                   else []))
     @ (if trim (stdout p) \<noteq> [] then [str ''STDOUT:'' @ NL # truncate (stdout p) 4000] else [])
     @ (if trim (stderr p) \<noteq> [] then [str ''STDERR:'' @ NL # truncate (stderr p) 4000] else [])"

definition renderSummary :: "payload \<Rightarrow> jstring" where
  "renderSummary p = join_nl (render_parts p)"

section \<open>The handler of the \<open>debug\<close> tool\<close>

text \<open>A string in a condition: \<open>undefined\<close> and the empty string are falsy.\<close>

definition truthy :: "jstring option \<Rightarrow> bool" where
  "truthy x = (case x of None \<Rightarrow> False | Some t \<Rightarrow> t \<noteq> [])"

text \<open>\<^verbatim>\<open>[command, ...childArgs].join(" ")\<close>\<close>

fun join_sp :: "jstring list \<Rightarrow> jstring" where
  "join_sp [] = []"
| "join_sp [p] = p"
| "join_sp (p # q # ps) = p @ 32 # join_sp (q # ps)"

text \<open>The \<open>try\<close> block of the handler and its \<open>catch\<close>; \<open>entryPath\<close> is \<open>None\<close> when falsy.\<close>

definition run_child ::
  "world \<Rightarrow> DebugArgs \<Rightarrow> jstring \<Rightarrow> jstring option \<Rightarrow> int \<Rightarrow> tool_result \<times> (jstring \<times> jstring list) list" where
  "run_child w a workingDir entryPath execTimeout =
     (let cmd = (if arg_language a = node then str ''node'' else str ''python3'');
          childArgs = (case entryPath of
                         Some ep \<Rightarrow> ep # (case args a of Some xs \<Rightarrow> xs | None \<Rightarrow> [])
                       | None \<Rightarrow> [str ''-V''])
      in case execa w cmd childArgs workingDir execTimeout of
           Throws msg \<Rightarrow>
             (\<lparr> content = [Text (str ''Failed to execute: '' @ msg)], isError = True \<rparr>,
              [(cmd, childArgs)])
         | Resolves r \<Rightarrow>
             (let errorSummary = parseError (Some (child_stderr r));
                  pl = \<lparr> language = arg_language a,
                         command = join_sp (cmd # childArgs),
                         cwd = workingDir,
                         exitCode = exit_code r,
                         timedOut = timed_out r,
                         stdout = child_stdout r,
                         stderr = child_stderr r,
                         error = errorSummary \<rparr>
              in (\<lparr> content =
                      [Text (renderSummary pl), PayloadJson pl]
                      @ (case entryPath of
                           Some ep \<Rightarrow> [ResourceLink ep (str ''Program entry file'')]
                         | None \<Rightarrow> [])
                      @ (case errorSummary of
                           None \<Rightarrow> []
                         | Some e \<Rightarrow>
                             if truthy (file e) then
                               (case file e of
                                  Some f \<Rightarrow> [ResourceLink f (str ''Likely error location'')]
                                | None \<Rightarrow> [])
                             else []),
                    isError = (exit_code r \<noteq> Some 0) \<rparr>,
                  [(cmd, childArgs)])))"

text \<open>
  The handler returns its result and the list of the children it spawned (the calls
  of \<open>execa\<close>, with command and arguments).
\<close>

definition debug_handler :: "world \<Rightarrow> DebugArgs \<Rightarrow> tool_result \<times> (jstring \<times> jstring list) list" where
  "debug_handler w a =
     (let workingDir = (case arg_cwd a of
                          Some c \<Rightarrow> if c \<noteq> [] then path_resolve w c else process_cwd w
                        | None \<Rightarrow> process_cwd w);
          entryPath = (case entry a of
                         Some e \<Rightarrow> if e \<noteq> [] then Some (path_resolve2 w workingDir e) else None
                       | None \<Rightarrow> None);
          execTimeout = (case timeoutMs a of Some t \<Rightarrow> t | None \<Rightarrow> 15000)
      in case (if truthy entryPath then entryPath else None) of
           Some ep \<Rightarrow>
             if \<not> existsSync w ep then
               (\<lparr> content = [Text (str ''Entry file not found: '' @ ep)], isError = True \<rparr>, [])
             else run_child w a workingDir (Some ep) execTimeout
         | None \<Rightarrow> run_child w a workingDir None execTimeout)"

section \<open>Notions used to state the properties\<close>

text \<open>
  The position reached after a piece \<open>xs\<close> of the input has been consumed: the code unit
  before it, and the open groups with \<open>xs\<close> added.
\<close>

definition after :: "cu option \<Rightarrow> jstring \<Rightarrow> cu option" where
  "after prev xs = (if xs = [] then prev else Some (last xs))"

definition advs :: "jstring \<Rightarrow> captures \<Rightarrow> captures" where
  "advs xs os = map (\<lambda>(k, acc). (k, rev xs @ acc)) os"

text \<open>The first position of a text, from the left, where \<open>f\<close> finds something.\<close>

fun first_at :: "(jstring \<Rightarrow> 'a option) \<Rightarrow> jstring \<Rightarrow> 'a option" where
  "first_at f [] = f []"
| "first_at f (x # xs) = (case f (x # xs) of Some r \<Rightarrow> Some r | None \<Rightarrow> first_at f xs)"

text \<open>
  A location \<^verbatim>\<open><absolute path>:<line>:<column>\<close> that begins at the head of \<open>t\<close>: a slash,
  one or more code units that are neither a colon nor a line feed, a colon, one or more
  digits, a colon, one or more digits (all that follow). The result is the path, the digits
  of the line and the digits of the column.
\<close>

definition spec_loc_here :: "jstring \<Rightarrow> (jstring \<times> jstring \<times> jstring) option" where
  "spec_loc_here t =
     (case t of
        [] \<Rightarrow> None
      | x # t1 \<Rightarrow>
          if x \<noteq> SLASH \<or> takeWhile not_colon_nl t1 = [] then None
          else
            (case dropWhile not_colon_nl t1 of
               [] \<Rightarrow> None
             | y # t2 \<Rightarrow>
                 if y \<noteq> COLON \<or> takeWhile is_digit t2 = [] then None
                 else
                   (case dropWhile is_digit t2 of
                      [] \<Rightarrow> None
                    | z # t3 \<Rightarrow>
                        if z \<noteq> COLON \<or> takeWhile is_digit t3 = [] then None
                        else Some (SLASH # takeWhile not_colon_nl t1, takeWhile is_digit t2,
                                   takeWhile is_digit t3))))"

text \<open>The first location of a text, as the three optional fields of the record.\<close>

definition spec_first_loc :: "jstring \<Rightarrow> jstring option \<times> nat option \<times> nat option" where
  "spec_first_loc t =
     (case first_at spec_loc_here t of
        None \<Rightarrow> (None, None, None)
      | Some (f, l, c) \<Rightarrow> (Some f, Some (Number l), Some (Number c)))"

text \<open>
  A frame \<^verbatim>\<open>File "<path>", line <N>\<close> that begins at the head of \<open>t\<close>: the path is one or
  more code units other than the double quote, \<open>N\<close> one or more digits (all that follow).
\<close>

definition spec_frame_here :: "jstring \<Rightarrow> (jstring \<times> jstring) option" where
  "spec_frame_here t =
     (if \<not> prefix (str ''File '' @ [DQUOTE]) t then None
      else
        (let t1 = drop (length (str ''File '' @ [DQUOTE])) t;
             path = takeWhile not_dquote t1;
             t2 = dropWhile not_dquote t1
         in if path = [] \<or> \<not> prefix (DQUOTE # str '', line '') t2 then None
            else
              (let digits = takeWhile is_digit (drop (length (DQUOTE # str '', line '')) t2)
               in if digits = [] then None else Some (path, digits))))"

text \<open>The first frame of the last line that has one.\<close>

fun spec_last_frame :: "jstring list \<Rightarrow> (jstring \<times> jstring) option" where
  "spec_last_frame [] = None"
| "spec_last_frame (l # ls) =
     (case spec_last_frame ls of
        Some r \<Rightarrow> Some r
      | None \<Rightarrow> first_at spec_frame_here l)"

text \<open>A line with a code unit that is not white space.\<close>

definition nonblank :: "jstring \<Rightarrow> bool" where
  "nonblank l = (\<exists>c \<in> set l. \<not> is_space c)"

text \<open>
  The start of a line, for \<^verbatim>\<open>^\<close> with the \<open>m\<close> flag: the start of the text or the position
  after a line terminator (\<open>prev\<close> is the code unit before the position).
\<close>

definition line_start :: "cu option \<Rightarrow> bool" where
  "line_start prev = (case prev of None \<Rightarrow> True | Some c \<Rightarrow> is_line_terminator c)"

text \<open>A dotted identifier that ends in \<open>Error\<close>.\<close>

definition dotted_error :: "jstring \<Rightarrow> bool" where
  "dotted_error ty = (list_all is_word_dot ty \<and> suffix (str ''Error'') ty)"

text \<open>
  The text matches the family-A anchor pattern: at the start of a line a dotted identifier
  that ends in \<open>Error\<close>, a colon, white space, a message of one or more code units other
  than the line feed, a line feed, and at least one more code unit.
\<close>

definition family_A_match :: "jstring \<Rightarrow> bool" where
  "family_A_match s =
     (\<exists>pre ty ws msg st.
        s = pre @ ty @ COLON # ws @ msg @ NL # st \<and> line_start (after None pre) \<and>
        dotted_error ty \<and> list_all is_space ws \<and> msg \<noteq> [] \<and> NL \<notin> set msg \<and> st \<noteq> [])"

text \<open>
  A header \<^verbatim>\<open><dotted identifier>Error:\<close> that begins a line, the first index of a text where
  \<open>P\<close> holds, and the last position of a text where \<open>f\<close> finds something.
\<close>

definition spec_header_here :: "cu option \<Rightarrow> jstring \<Rightarrow> bool" where
  "spec_header_here prev t =
     (line_start prev \<and> suffix (str ''Error'') (takeWhile is_word_dot t) \<and>
      (case dropWhile is_word_dot t of [] \<Rightarrow> False | c # _ \<Rightarrow> c = COLON))"

fun first_pos :: "(cu option \<Rightarrow> jstring \<Rightarrow> bool) \<Rightarrow> cu option \<Rightarrow> jstring \<Rightarrow> nat option" where
  "first_pos P prev [] = (if P prev [] then Some 0 else None)"
| "first_pos P prev (x # xs) =
     (if P prev (x # xs) then Some 0 else map_option Suc (first_pos P (Some x) xs))"

fun last_at :: "(jstring \<Rightarrow> 'a option) \<Rightarrow> jstring \<Rightarrow> 'a option" where
  "last_at f [] = f []"
| "last_at f (x # xs) = (case last_at f xs of Some r \<Rightarrow> Some r | None \<Rightarrow> f (x # xs))"

text \<open>
  A line of the form \<^verbatim>\<open><identifier>: <message>\<close>: a letter or underscore and then
  letters, digits and underscores, a colon, white space, and a message that has no line
  terminator. The result is the identifier and the message, which starts after the white
  space.
\<close>

definition spec_py_kind_msg :: "jstring \<Rightarrow> (jstring \<times> jstring) option" where
  "spec_py_kind_msg l =
     (let ident = takeWhile is_word l; r = dropWhile is_word l
      in if ident = [] \<or> \<not> is_ident_start (hd ident) then None
         else
           (case r of
              [] \<Rightarrow> None
            | c # r1 \<Rightarrow>
                if c \<noteq> COLON \<or> \<not> list_all dot_class (dropWhile is_space r1) then None
                else Some (ident, dropWhile is_space r1)))"

text \<open>
  A line of the form \<^verbatim>\<open><dotted identifier>Error: <message>\<close>: letters, digits, underscores
  and dots that end in \<open>Error\<close>, a colon, white space, and a message that has no line
  terminator.
\<close>

definition spec_node_kind_msg :: "jstring \<Rightarrow> (jstring \<times> jstring) option" where
  "spec_node_kind_msg l =
     (let ident = takeWhile is_word_dot l; r = dropWhile is_word_dot l
      in if \<not> suffix (str ''Error'') ident then None
         else
           (case r of
              [] \<Rightarrow> None
            | c # r1 \<Rightarrow>
                if c \<noteq> COLON \<or> \<not> list_all dot_class (dropWhile is_space r1) then None
                else Some (ident, dropWhile is_space r1)))"

text \<open>The last line that is not blank, the empty string when all are blank.\<close>

definition spec_last_nonblank :: "jstring list \<Rightarrow> jstring" where
  "spec_last_nonblank lines =
     (if filter nonblank lines = [] then [] else last (filter nonblank lines))"

text \<open>The working directory, the entry path and the timeout the handler resolves.\<close>

definition spec_working_dir :: "world \<Rightarrow> DebugArgs \<Rightarrow> jstring" where
  "spec_working_dir w a =
     (case arg_cwd a of
        None \<Rightarrow> process_cwd w
      | Some c \<Rightarrow> if c = [] then process_cwd w else path_resolve w c)"

definition spec_entry_path :: "world \<Rightarrow> DebugArgs \<Rightarrow> jstring option" where
  "spec_entry_path w a =
     (case entry a of
        None \<Rightarrow> None
      | Some e \<Rightarrow>
          if e = [] \<or> path_resolve2 w (spec_working_dir w a) e = [] then None
          else Some (path_resolve2 w (spec_working_dir w a) e))"

definition spec_timeout :: "DebugArgs \<Rightarrow> int" where
  "spec_timeout a = (case timeoutMs a of None \<Rightarrow> 15000 | Some t \<Rightarrow> t)"

definition spec_entry_missing :: "world \<Rightarrow> DebugArgs \<Rightarrow> bool" where
  "spec_entry_missing w a =
     (case spec_entry_path w a of None \<Rightarrow> False | Some ep \<Rightarrow> \<not> existsSync w ep)"

section \<open>Example inputs\<close>

text \<open>Scenario 1 and Scenario 2 of the specification, and the records expected for them.\<close>

definition scenario1 :: jstring where
  "scenario1 = str ''TypeError: Cannot read properties of undefined'' @ NL #
               str ''    at Object.<anonymous> (/tmp/app.js:12:5)''"

definition scenario1_record :: error_record where
  "scenario1_record =
     \<lparr> runtime = node, type = str ''TypeError'',
       message = str ''Cannot read properties of undefined'',
       file = Some (str ''/tmp/app.js''), line = Some 12, column = Some 5,
       stack = str ''    at Object.<anonymous> (/tmp/app.js:12:5)'' \<rparr>"

definition scenario2 :: jstring where
  "scenario2 = str ''Traceback (most recent call last):'' @ NL #
               str ''  File '' @ DQUOTE # str ''/tmp/app.py'' @ DQUOTE #
               str '', line 3, in <module>'' @ NL #
               str ''    x = 1/0'' @ NL #
               str ''ZeroDivisionError: division by zero''"

definition scenario2_record :: error_record where
  "scenario2_record =
     \<lparr> runtime = python, type = str ''ZeroDivisionError'',
       message = str ''division by zero'',
       file = Some (str ''/tmp/app.py''), line = Some 3, column = None,
       stack = scenario2 \<rparr>"

definition scenario2_lines :: "jstring list" where
  "scenario2_lines =
     [str ''Traceback (most recent call last):'',
      str ''  File '' @ DQUOTE # str ''/tmp/app.py'' @ DQUOTE # str '', line 3, in <module>'',
      str ''    x = 1/0'',
      str ''ZeroDivisionError: division by zero'']"

text \<open>A trace whose first line is blank.\<close>

definition example_trace_lines :: "jstring list" where
  "example_trace_lines = [[32, 9], str ''app.ValidationError:   bad input'', str ''    at f'']"

text \<open>
  The output of a failing Node program: an excerpt of the source, with a location, before
  the anchor line, and a location inside the message.
\<close>

definition node_example :: jstring where
  "node_example =
     str ''/tmp/app.js:12:3'' @ NL # str ''    foo.bar'' @ NL # NL #
     str ''TypeError: bad /x/y.js:1:1 here'' @ NL #
     str ''    at Object.<anonymous> (/tmp/app.js:12:5)'' @ [NL]"

definition node_example_record :: error_record where
  "node_example_record =
     \<lparr> runtime = node, type = str ''TypeError'', message = str ''bad /x/y.js:1:1 here'',
       file = Some (str ''/tmp/app.js''), line = Some 12, column = Some 5,
       stack = str ''    at Object.<anonymous> (/tmp/app.js:12:5)'' @ [NL] \<rparr>"

text \<open>A traceback with two frames on one line.\<close>

definition two_frames :: jstring where
  "two_frames =
     str ''Traceback (most recent call last):'' @ NL #
     str ''  File '' @ DQUOTE # str ''a.py'' @ DQUOTE # str '', line 1, in f; File '' @
       DQUOTE # str ''b.py'' @ DQUOTE # str '', line 2'' @ NL #
     str ''ValueError: x''"

text \<open>
  A header with nothing after its colon, before an anchor line; and a header whose line
  ends at the colon, given by its lines.
\<close>

definition empty_header_first :: jstring where
  "empty_header_first =
     str ''Error:'' @ NL # str ''foo'' @ NL # str ''TypeError: x'' @ NL #
     str ''    at f (/a.js:1:2)''"

definition message_on_next_line :: "jstring list" where
  "message_on_next_line = [str ''TypeError:'', str ''foo'', str ''bar'']"

text \<open>A payload with both bodies, and a world in which the entry file exists or not.\<close>

definition example_payload :: payload where
  "example_payload =
     \<lparr> language = node, command = str ''node /tmp/app.js'', cwd = str ''/tmp'',
       exitCode = Some 1, timedOut = False, stdout = str ''Starting test...'',
       stderr = scenario1, error = Some scenario1_record \<rparr>"

definition example_args :: DebugArgs where
  "example_args =
     \<lparr> arg_language = node, entry = Some (str ''app.js''), args = None,
       arg_cwd = Some (str ''/tmp''), timeoutMs = None \<rparr>"

definition example_world :: "bool \<Rightarrow> exec_outcome \<Rightarrow> world" where
  "example_world ex outcome =
     \<lparr> path_resolve = (\<lambda>c. c), path_resolve2 = (\<lambda>d e. d @ SLASH # e),
       process_cwd = str ''/'', existsSync = (\<lambda>p. ex),
       execa = (\<lambda>c a d t. outcome) \<rparr>"

definition example_child :: "int option \<Rightarrow> child_result" where
  "example_child code =
     \<lparr> child_stdout = str ''Starting test...'', child_stderr = scenario1,
       exit_code = code, timed_out = False \<rparr>"

section \<open>Properties of the matcher\<close>

lemma advs_Nil [simp]: "advs [] os = os"
  by (simp add: advs_def)

lemma advs_empty [simp]: "advs xs [] = []"
  by (simp add: advs_def)

lemma advs_Cons: "advs (x # xs) os = advs xs (adv x os)"
  by (simp add: advs_def adv_def split_def comp_def)

lemma advs_append: "advs (xs @ ys) os = advs ys (advs xs os)"
  by (simp add: advs_def split_def comp_def)

lemma advs_single [simp]: "advs xs ((k, acc) # os) = (k, rev xs @ acc) # advs xs os"
  by (simp add: advs_def)

lemma after_Nil [simp]: "after prev [] = prev"
  by (simp add: after_def)

lemma after_Cons: "after prev (x # xs) = after (Some x) xs"
  by (simp add: after_def)

lemma after_append: "after prev (xs @ ys) = after (after prev xs) ys"
  by (simp add: after_def)

text \<open>A literal matches when it is a prefix of the input.\<close>

lemma rmatch_Lit:
  "rmatch (Lit l # p) prev rest os cs =
     (if prefix l rest then rmatch p (after prev l) (drop (length l) rest) (advs l os) cs else None)"
proof (induction l arbitrary: prev rest os)
  case Nil
  then show ?case by simp
next
  case (Cons a l)
  then show ?case
    by (cases rest) (auto simp: after_Cons advs_Cons)
qed

text \<open>A quantifier that succeeds took some code units of its class.\<close>

lemma rmatch_Star_sound:
  "rmatch (Star c # p) prev rest os cs = Some r \<Longrightarrow>
     \<exists>xs rest'. rest = xs @ rest' \<and> list_all c xs \<and>
        rmatch p (after prev xs) rest' (advs xs os) cs = Some r"
proof (induction rest arbitrary: prev os)
  case Nil
  then show ?case by (intro exI[of _ "[]"]) simp
next
  case (Cons x rest)
  show ?case
  proof (cases "c x \<and> rmatch (Star c # p) (Some x) rest (adv x os) cs \<noteq> None")
    case True
    then have "rmatch (Star c # p) (Some x) rest (adv x os) cs = Some r"
      using Cons.prems by auto
    from Cons.IH[OF this] obtain xs rest' where
      "rest = xs @ rest'" "list_all c xs"
      "rmatch p (after (Some x) xs) rest' (advs xs (adv x os)) cs = Some r"
      by blast
    then show ?thesis using True
      by (intro exI[of _ "x # xs"] exI[of _ rest']) (simp add: after_Cons advs_Cons)
  next
    case False
    then have "rmatch p prev (x # rest) os cs = Some r"
      using Cons.prems by (auto split: if_splits option.splits)
    then show ?thesis by (intro exI[of _ "[]"] exI[of _ "x # rest"]) simp
  qed
qed

lemma rmatch_Plus_sound:
  "rmatch (Plus c # p) prev rest os cs = Some r \<Longrightarrow>
     \<exists>xs rest'. rest = xs @ rest' \<and> xs \<noteq> [] \<and> list_all c xs \<and>
        rmatch p (after prev xs) rest' (advs xs os) cs = Some r"
proof (cases rest)
  case Nil
  assume "rmatch (Plus c # p) prev rest os cs = Some r"
  then show ?thesis using Nil by simp
next
  case (Cons x rest0)
  assume a: "rmatch (Plus c # p) prev rest os cs = Some r"
  then have cx: "c x" and "rmatch (Star c # p) (Some x) rest0 (adv x os) cs = Some r"
    using Cons by (auto split: if_splits)
  from rmatch_Star_sound[OF this(2)] obtain xs rest' where
    "rest0 = xs @ rest'" "list_all c xs"
    "rmatch p (after (Some x) xs) rest' (advs xs (adv x os)) cs = Some r"
    by blast
  then show ?thesis using Cons cx
    by (intro exI[of _ "x # xs"] exI[of _ rest']) (simp add: after_Cons advs_Cons)
qed

text \<open>Success goes outwards through code units of the class: the longer match is preferred.\<close>

lemma rmatch_Star_step:
  "list_all c xs \<Longrightarrow> rmatch (Star c # p) (after prev xs) rest' (advs xs os) cs = Some r \<Longrightarrow>
     rmatch (Star c # p) prev (xs @ rest') os cs = Some r"
proof (induction xs arbitrary: prev os)
  case Nil
  then show ?case by simp
next
  case (Cons x xs)
  then show ?case by (simp add: after_Cons advs_Cons)
qed

lemma rmatch_Star_stop:
  "rest' = [] \<or> \<not> c (hd rest') \<Longrightarrow>
     rmatch (Star c # p) prev rest' os cs = rmatch p prev rest' os cs"
  by (cases rest') auto

lemma rmatch_Star_greedy:
  "list_all c xs \<Longrightarrow> rest' = [] \<or> \<not> c (hd rest') \<Longrightarrow>
   rmatch p (after prev xs) rest' (advs xs os) cs = Some r \<Longrightarrow>
     rmatch (Star c # p) prev (xs @ rest') os cs = Some r"
proof -
  assume a: "list_all c xs" "rest' = [] \<or> \<not> c (hd rest')"
    "rmatch p (after prev xs) rest' (advs xs os) cs = Some r"
  have "rmatch (Star c # p) (after prev xs) rest' (advs xs os) cs = Some r"
    using rmatch_Star_stop[of rest' c p "after prev xs" "advs xs os" cs] a(2,3) by simp
  with a(1) show ?thesis by (rule rmatch_Star_step)
qed

lemma rmatch_Plus_greedy:
  "xs \<noteq> [] \<Longrightarrow> list_all c xs \<Longrightarrow> rest' = [] \<or> \<not> c (hd rest') \<Longrightarrow>
   rmatch p (after prev xs) rest' (advs xs os) cs = Some r \<Longrightarrow>
     rmatch (Plus c # p) prev (xs @ rest') os cs = Some r"
proof (cases xs)
  case Nil
  assume "xs \<noteq> []" then show ?thesis using Nil by simp
next
  case (Cons x xs0)
  assume a: "list_all c xs" "rest' = [] \<or> \<not> c (hd rest')"
    "rmatch p (after prev xs) rest' (advs xs os) cs = Some r"
  have "rmatch (Star c # p) (Some x) (xs0 @ rest') (adv x os) cs = Some r"
    using a Cons by (intro rmatch_Star_greedy) (simp_all add: after_Cons advs_Cons)
  then show ?thesis using a Cons by simp
qed

text \<open>
  When the rest of the pattern cannot start with a code unit of the class, the quantifier
  takes the whole run and never backtracks.
\<close>

lemma rmatch_Star_det:
  assumes "\<And>prev' x t' os' cs'. c x \<Longrightarrow> rmatch p prev' (x # t') os' cs' = None"
  shows "rmatch (Star c # p) prev t os cs =
           rmatch p (after prev (takeWhile c t)) (dropWhile c t) (advs (takeWhile c t) os) cs"
proof (induction t arbitrary: prev os)
  case Nil
  then show ?case by simp
next
  case (Cons x t)
  show ?case
  proof (cases "c x")
    case True
    then show ?thesis using Cons[of "Some x" "adv x os"] assms[OF True, of prev t os cs]
      by (simp add: after_Cons advs_Cons split: option.splits)
  next
    case False
    then show ?thesis by simp
  qed
qed

lemma rmatch_Plus_det:
  assumes "\<And>prev' x t' os' cs'. c x \<Longrightarrow> rmatch p prev' (x # t') os' cs' = None"
  shows "rmatch (Plus c # p) prev t os cs =
           (if takeWhile c t = [] then None
            else rmatch p (after prev (takeWhile c t)) (dropWhile c t) (advs (takeWhile c t) os) cs)"
proof (cases t)
  case Nil
  then show ?thesis by simp
next
  case (Cons x t0)
  show ?thesis
  proof (cases "c x")
    case True
    have "rmatch (Star c # p) (Some x) t0 (adv x os) cs =
            rmatch p (after (Some x) (takeWhile c t0)) (dropWhile c t0)
              (advs (takeWhile c t0) (adv x os)) cs"
      by (rule rmatch_Star_det) (rule assms)
    then show ?thesis using Cons True
      by (simp add: after_Cons advs_Cons)
  next
    case False
    then show ?thesis using Cons by simp
  qed
qed

text \<open>A quantified group that ends the pattern captures the whole run.\<close>

lemma rmatch_Star_Close_last:
  "rmatch [Star c, Close k] prev rest ((k, acc) # os) cs =
     Some ((k, rev acc @ takeWhile c rest) # cs)"
proof (induction rest arbitrary: prev acc os)
  case Nil
  then show ?case by simp
next
  case (Cons x rest)
  then show ?case by (simp add: adv_def)
qed

declare rmatch.simps(5,6,8,9) [simp del]

lemma rmatch_Plus_Close_last:
  "rmatch [Plus c, Close k] prev rest ((k, []) # os) cs =
     (if takeWhile c rest = [] then None else Some ((k, takeWhile c rest) # cs))"
  by (cases rest) (simp_all add: adv_def rmatch_Star_Close_last rmatch.simps(9))

subsection \<open>The search for the first match\<close>

lemma re_search_first_at:
  "(\<And>prev t. rmatch p prev t [] [] = f t) \<Longrightarrow> re_search p prev s = first_at f s"
  by (induction s arbitrary: prev) (simp_all split: option.splits)

lemma first_at_map_option:
  "first_at (\<lambda>t. map_option g (f t)) s = map_option g (first_at f s)"
  by (induction s) (simp_all split: option.splits)

subsection \<open>The location pattern and the frame pattern\<close>

lemma digit_then_colon_fail:
  "is_digit x \<Longrightarrow> rmatch (Close k # Lit [COLON] # p) prev (x # t) os cs = None"
  by (auto simp: is_digit_def rmatch.simps(6) split: option.splits)

lemma path_then_colon_fail:
  "not_colon_nl x \<Longrightarrow> rmatch (Close k # Lit [COLON] # p) prev (x # t) os cs = None"
  by (auto simp: not_colon_nl_def rmatch.simps(6) split: option.splits)

lemma rmatch_locRe:
  "rmatch locRe prev t [] [] =
     map_option (\<lambda>(f, l, c). [(3, c), (2, l), (1, f)]) (spec_loc_here t)"
  by (cases t)
     (auto simp add: locRe_def spec_loc_here_def adv_def rmatch_Plus_Close_last rmatch.simps(5,6)
        rmatch_Plus_det[OF digit_then_colon_fail] rmatch_Plus_det[OF path_then_colon_fail]
        simp del: One_nat_def dropWhile_eq_Nil_conv split: list.splits)

lemma re_exec_locRe:
  "re_exec locRe t =
     map_option (\<lambda>(f, l, c). [(3, c), (2, l), (1, f)]) (first_at spec_loc_here t)"
proof -
  have "re_search locRe None t =
          first_at (\<lambda>t. map_option (\<lambda>(f, l, c). [(3, c), (2, l), (1, f)]) (spec_loc_here t)) t"
    by (rule re_search_first_at) (rule rmatch_locRe)
  then show ?thesis by (simp add: re_exec_def first_at_map_option)
qed

lemma path_then_dquote_fail:
  "not_dquote x \<Longrightarrow> rmatch (Close k # Lit (DQUOTE # l) # p) prev (x # t) os cs = None"
  by (auto simp: not_dquote_def rmatch.simps(6) split: option.splits)

lemma rmatch_pyFile:
  "rmatch pyFile prev t [] [] = map_option (\<lambda>(p, d). [(2, d), (1, p)]) (spec_frame_here t)"
  by (simp add: pyFile_def spec_frame_here_def rmatch_Lit rmatch_Plus_det[OF path_then_dquote_fail]
       rmatch_Plus_Close_last str_def Let_def del: One_nat_def)

lemma re_exec_pyFile:
  "re_exec pyFile l = map_option (\<lambda>(p, d). [(2, d), (1, p)]) (first_at spec_frame_here l)"
proof -
  have "re_search pyFile None l =
          first_at (\<lambda>t. map_option (\<lambda>(p, d). [(2, d), (1, p)]) (spec_frame_here t)) l"
    by (rule re_search_first_at) (rule rmatch_pyFile)
  then show ?thesis by (simp add: re_exec_def first_at_map_option)
qed

text \<open>The loop keeps the frame of the last line that has one.\<close>

lemma scan_lines_spec:
  "scan_lines ls acc =
     (case spec_last_frame ls of
        None \<Rightarrow> acc
      | Some (p, d) \<Rightarrow> (Some p, Some (Number d)))"
proof (induction ls arbitrary: acc)
  case Nil
  then show ?case by simp
next
  case (Cons l ls)
  then show ?case
    by (cases "first_at spec_frame_here l")
       (auto simp: re_exec_pyFile group_def split: option.splits)
qed

subsection \<open>The two patterns for one line\<close>

lemma option_eqI:
  "(\<And>m. a = Some m \<Longrightarrow> b = Some m) \<Longrightarrow> (\<And>m. b = Some m \<Longrightarrow> a = Some m) \<Longrightarrow> a = (b :: 'a option)"
  by (cases a; cases b) auto

lemma close_eos_fail: "rmatch [Close k, Eos] prev (x # t) os cs = None"
  by (simp split: option.splits)

lemma dropWhile_Cons_ex: "dropWhile P xs = y # ys \<Longrightarrow> \<exists>x \<in> set xs. \<not> P x"
  by (metis dropWhile_eq_Nil_conv list.discI)

lemma rmatch_message_eos:
  "rmatch [Open 2, Star dot_class, Close 2, Eos] prev u [] cs =
     (if list_all dot_class u then Some ((2, u) # cs) else None)"
proof -
  have "rmatch [Open 2, Star dot_class, Close 2, Eos] prev u [] cs =
          rmatch [Star dot_class, Close 2, Eos] prev u [(2, [])] cs"
    by simp
  also have "\<dots> = rmatch [Close 2, Eos] (after prev (takeWhile dot_class u)) (dropWhile dot_class u)
            (advs (takeWhile dot_class u) [(2, [])]) cs"
    by (rule rmatch_Star_det) (rule close_eos_fail)
  also have "\<dots> = (if list_all dot_class u then Some ((2, u) # cs) else None)"
  proof (cases "list_all dot_class u")
    case True
    then have tw: "takeWhile dot_class u = u" "dropWhile dot_class u = []"
      by (simp_all add: list_all_iff)
    show ?thesis unfolding tw using True by simp
  next
    case False
    then obtain y ys where "dropWhile dot_class u = y # ys"
      by (cases "dropWhile dot_class u") (auto simp: list_all_iff)
    then show ?thesis using False by (simp add: close_eos_fail)
  qed
  finally show ?thesis .
qed

lemma rmatch_space_message_eos:
  "rmatch [Star is_space, Open 2, Star dot_class, Close 2, Eos] prev r1 [] cs =
     (if list_all dot_class (dropWhile is_space r1) then Some ((2, dropWhile is_space r1) # cs)
      else None)"
proof -
  let ?p = "[Open 2, Star dot_class, Close 2, Eos]"
  have complete: "rmatch (Star is_space # ?p) prev r1 [] cs = Some ((2, dropWhile is_space r1) # cs)"
    if d: "list_all dot_class (dropWhile is_space r1)"
  proof -
    have "rmatch (Star is_space # ?p) prev (takeWhile is_space r1 @ dropWhile is_space r1) [] cs
            = Some ((2, dropWhile is_space r1) # cs)"
    proof (rule rmatch_Star_greedy)
      show "list_all is_space (takeWhile is_space r1)"
        by (simp add: list_all_iff) (meson set_takeWhileD)
      show "dropWhile is_space r1 = [] \<or> \<not> is_space (hd (dropWhile is_space r1))"
        using hd_dropWhile[of is_space r1] by blast
      show "rmatch ?p (after prev (takeWhile is_space r1)) (dropWhile is_space r1)
              (advs (takeWhile is_space r1) []) cs = Some ((2, dropWhile is_space r1) # cs)"
        using d rmatch_message_eos[of "after prev (takeWhile is_space r1)" "dropWhile is_space r1" cs]
        by simp
    qed
    then show ?thesis by simp
  qed
  have sound: "list_all dot_class (dropWhile is_space r1)"
    if s: "rmatch (Star is_space # ?p) prev r1 [] cs = Some m" for m
  proof -
    from rmatch_Star_sound[OF s] obtain xs rest' where
      h: "r1 = xs @ rest'" "list_all is_space xs"
         "rmatch ?p (after prev xs) rest' (advs xs []) cs = Some m"
      by blast
    then have "list_all dot_class rest'"
      using rmatch_message_eos[of "after prev xs" rest' cs]
      by (cases "list_all dot_class rest'") simp_all
    moreover have "dropWhile is_space r1 = dropWhile is_space rest'"
      using h(1,2) by (simp add: list_all_iff dropWhile_append2)
    ultimately show ?thesis
      by (simp add: list_all_iff) (meson set_dropWhileD)
  qed
  show ?thesis
  proof (cases "list_all dot_class (dropWhile is_space r1)")
    case True
    then show ?thesis using complete by simp
  next
    case False
    then have "rmatch (Star is_space # ?p) prev r1 [] cs = None"
      using sound by (cases "rmatch (Star is_space # ?p) prev r1 [] cs") auto
    then show ?thesis using False by simp
  qed
qed

lemma re_search_Bos_Some: "re_search (Bos # p) (Some x) s = None"
  by (induction s arbitrary: x) simp_all

lemma re_exec_Bos: "re_exec (Bos # p) s = rmatch p None s [] []"
  by (cases s) (simp_all add: re_exec_def re_search_Bos_Some split: option.splits)

lemma word_then_colon_fail:
  "is_word x \<Longrightarrow> rmatch (Close k # Lit [COLON] # p) prev (x # t) os cs = None"
  by (auto simp: is_word_def is_ident_start_def is_digit_def rmatch.simps(6) split: option.splits)

lemma re_exec_pyTypeRe:
  "re_exec pyTypeRe l = map_option (\<lambda>(k, m). [(2, m), (1, k)]) (spec_py_kind_msg l)"
proof (cases l)
  case Nil
  then show ?thesis
    by (simp add: pyTypeRe_def re_exec_Bos spec_py_kind_msg_def)
next
  case (Cons x l')
  show ?thesis
  proof (cases "is_ident_start x")
    case True
    then have w: "is_word x" by (simp add: is_word_def)
    show ?thesis using Cons True w
      by (auto simp: pyTypeRe_def re_exec_Bos spec_py_kind_msg_def adv_def Let_def
            rmatch_Star_det[OF word_then_colon_fail] rmatch_space_message_eos
            rmatch.simps(5,6)
          simp del: One_nat_def dropWhile_eq_Nil_conv split: list.splits)
  next
    case False
    then show ?thesis using Cons
      by (auto simp: pyTypeRe_def re_exec_Bos spec_py_kind_msg_def Let_def)
  qed
qed

lemma star_error_literal:
  "rmatch (Star is_word_dot # Lit (str ''Error'') # q) prev (str ''Error'' @ COLON # r) os cs =
     rmatch q (Some 114) (COLON # r) (advs (str ''Error'') os) cs"
  by (simp add: str_def rmatch.simps(5,6,8) advs_Cons is_word_dot_def is_word_def
        is_ident_start_def is_digit_def)

lemma close_colon_Some:
  "rmatch (Close k # Lit [COLON] # p) prev r os cs = Some m \<Longrightarrow> \<exists>r'. r = COLON # r'"
  by (cases r) (auto simp: rmatch.simps(6) split: option.splits if_splits)

lemma is_word_dot_Error: "list_all is_word_dot (str ''Error'')"
  by (simp add: str_def is_word_dot_def is_word_def is_ident_start_def is_digit_def)

lemma not_word_dot_colon: "\<not> is_word_dot COLON"
  by (simp add: is_word_dot_def is_word_def is_ident_start_def is_digit_def)

lemma takeWhile_run: "list_all P xs \<Longrightarrow> \<not> P y \<Longrightarrow> takeWhile P (xs @ y # ys) = xs"
  by (simp add: list_all_iff takeWhile_tail)

lemma dropWhile_run: "list_all P xs \<Longrightarrow> \<not> P y \<Longrightarrow> dropWhile P (xs @ y # ys) = y # ys"
  by (simp add: list_all_iff dropWhile_append2)

lemma rmatch_error_header:
  "rmatch (Star is_word_dot # Lit (str ''Error'') # Close k # Lit [COLON] # p) prev t os cs =
     (if suffix (str ''Error'') (takeWhile is_word_dot t) \<and>
         (\<exists>r'. dropWhile is_word_dot t = COLON # r')
      then rmatch (Close k # Lit [COLON] # p) (after prev (takeWhile is_word_dot t))
             (dropWhile is_word_dot t) (advs (takeWhile is_word_dot t) os) cs
      else None)"
  (is "?L = ?R")
proof (rule option_eqI)
  fix m assume L: "?L = Some m"
  from rmatch_Star_sound[OF L] obtain xs rest' where
    h: "t = xs @ rest'" "list_all is_word_dot xs"
       "rmatch (Lit (str ''Error'') # Close k # Lit [COLON] # p) (after prev xs) rest' (advs xs os) cs = Some m"
    by blast
  from h(3) have pre: "prefix (str ''Error'') rest'"
    and c: "rmatch (Close k # Lit [COLON] # p) (after (after prev xs) (str ''Error''))
              (drop (length (str ''Error'')) rest') (advs (str ''Error'') (advs xs os)) cs = Some m"
    by (simp_all add: rmatch_Lit split: if_splits)
  from pre obtain r where r: "rest' = str ''Error'' @ r" by (auto simp: prefix_def)
  with c close_colon_Some obtain r' where r': "r = COLON # r'" by fastforce
  have t: "t = (xs @ str ''Error'') @ COLON # r'" using h(1) r r' by simp
  have all: "list_all is_word_dot (xs @ str ''Error'')" using h(2) is_word_dot_Error by simp
  have tw: "takeWhile is_word_dot t = xs @ str ''Error''"
    unfolding t using all not_word_dot_colon by (rule takeWhile_run)
  have dw: "dropWhile is_word_dot t = COLON # r'"
    unfolding t using all not_word_dot_colon by (rule dropWhile_run)
  have "suffix (str ''Error'') (xs @ str ''Error'')" by (simp add: suffix_def)
  then show "?R = Some m"
    using c r r' by (simp add: tw dw after_append advs_append del: rmatch.simps)
next
  fix m assume R: "?R = Some m"
  then have s: "suffix (str ''Error'') (takeWhile is_word_dot t)"
    and "\<exists>r'. dropWhile is_word_dot t = COLON # r'"
    and c: "rmatch (Close k # Lit [COLON] # p) (after prev (takeWhile is_word_dot t))
             (dropWhile is_word_dot t) (advs (takeWhile is_word_dot t) os) cs = Some m"
    by (simp_all del: rmatch.simps split: if_splits)
  then obtain r' where dw: "dropWhile is_word_dot t = COLON # r'" by blast
  from s obtain xs where tw: "takeWhile is_word_dot t = xs @ str ''Error''"
    by (auto simp: suffix_def)
  have t: "t = xs @ str ''Error'' @ COLON # r'"
    using takeWhile_dropWhile_id[of is_word_dot t] tw dw by simp
  have xs: "list_all is_word_dot xs"
  proof -
    have "list_all is_word_dot (takeWhile is_word_dot t)"
      by (simp add: list_all_iff) (meson set_takeWhileD)
    then show ?thesis by (simp add: tw)
  qed
  have c': "rmatch (Close k # Lit [COLON] # p) (after prev (xs @ str ''Error'')) (COLON # r')
              (advs (xs @ str ''Error'') os) cs = Some m"
    using c by (simp add: tw dw del: rmatch.simps)
  have a: "after prev (xs @ str ''Error'') = Some 114"
    by (simp add: after_def str_def)
  have "rmatch (Star is_word_dot # Lit (str ''Error'') # Close k # Lit [COLON] # p)
          (after prev xs) (str ''Error'' @ COLON # r') (advs xs os) cs =
        rmatch (Close k # Lit [COLON] # p) (Some 114) (COLON # r')
          (advs (str ''Error'') (advs xs os)) cs"
    by (rule star_error_literal)
  also have "\<dots> = Some m"
    using c' a by (simp add: advs_append del: rmatch.simps)
  finally have "rmatch (Star is_word_dot # Lit (str ''Error'') # Close k # Lit [COLON] # p)
          (after prev xs) (str ''Error'' @ COLON # r') (advs xs os) cs = Some m" .
  with xs show "?L = Some m" unfolding t by (rule rmatch_Star_step)
qed

lemma re_exec_nodeLineRe:
  "re_exec nodeLineRe l = map_option (\<lambda>(k, m). [(2, m), (1, k)]) (spec_node_kind_msg l)"
  by (auto simp: nodeLineRe_def re_exec_Bos spec_node_kind_msg_def Let_def adv_def
        rmatch_error_header rmatch_space_message_eos rmatch.simps(5,6)
      simp del: One_nat_def dropWhile_eq_Nil_conv split: list.splits)

lemma re_test_traceback: "re_test tracebackRe s = sublist (str ''Traceback (most recent call last):'') s"
proof -
  have m: "rmatch [Lit l] prev t [] [] = (if prefix l t then Some [] else None)" for l prev t
    by (simp add: rmatch_Lit)
  have "re_search [Lit l] prev s \<noteq> None \<longleftrightarrow> sublist l s" for l prev
  proof (induction s arbitrary: prev)
    case Nil
    then show ?case by (simp add: m)
  next
    case (Cons x s)
    then show ?case by (auto simp: m sublist_Cons_right split: option.splits if_splits)
  qed
  then show ?thesis by (simp add: re_test_def re_exec_def tracebackRe_def)
qed

subsection \<open>The anchor pattern\<close>

lemma rmatch_Star_complete:
  "list_all c xs \<Longrightarrow> rmatch p (after prev xs) rest' (advs xs os) cs \<noteq> None \<Longrightarrow>
     rmatch (Star c # p) prev (xs @ rest') os cs \<noteq> None"
proof (induction xs arbitrary: prev os)
  case Nil
  then show ?case by (cases rest') (auto simp: rmatch.simps(8) split: option.splits)
next
  case (Cons x xs)
  then have "rmatch (Star c # p) (Some x) (xs @ rest') (adv x os) cs \<noteq> None"
    by (simp add: after_Cons advs_Cons)
  then show ?case using Cons.prems(1) by (auto simp: rmatch.simps(8))
qed

lemma re_search_sound:
  "re_search p prev s = Some r \<Longrightarrow>
     \<exists>pre rest. s = pre @ rest \<and> rmatch p (after prev pre) rest [] [] = Some r"
proof (induction s arbitrary: prev)
  case Nil
  then show ?case by simp
next
  case (Cons x s)
  show ?case
  proof (cases "rmatch p prev (x # s) [] []")
    case (Some r')
    then have "r' = r" using Cons.prems by simp
    then show ?thesis using Some by (intro exI[of _ "[]"] exI[of _ "x # s"]) simp
  next
    case None
    then have "re_search p (Some x) s = Some r" using Cons.prems by simp
    from Cons.IH[OF this] obtain pre rest where
      "s = pre @ rest" "rmatch p (after (Some x) pre) rest [] [] = Some r"
      by blast
    then show ?thesis
      by (intro exI[of _ "x # pre"] exI[of _ rest]) (simp add: after_Cons)
  qed
qed

lemma re_search_complete:
  "rmatch p (after prev pre) rest [] [] \<noteq> None \<Longrightarrow> re_search p prev (pre @ rest) \<noteq> None"
proof (induction pre arbitrary: prev)
  case Nil
  then show ?case by (cases rest) (auto split: option.splits)
next
  case (Cons x pre)
  then have "re_search p (Some x) (pre @ rest) \<noteq> None" by (simp add: after_Cons)
  then show ?case by (auto split: option.splits)
qed

lemma re_search_skip:
  "(\<And>a b. pre = a @ b \<Longrightarrow> b \<noteq> [] \<Longrightarrow> rmatch p (after prev a) (b @ rest) [] [] = None) \<Longrightarrow>
     re_search p prev (pre @ rest) = re_search p (after prev pre) rest"
proof (induction pre arbitrary: prev)
  case Nil
  then show ?case by simp
next
  case (Cons x pre)
  have 1: "rmatch p prev (x # pre @ rest) [] [] = None"
    using Cons.prems[of "[]" "x # pre"] by simp
  have 2: "rmatch p (after (Some x) a) (b @ rest) [] [] = None" if "pre = a @ b" "b \<noteq> []" for a b
    using Cons.prems[of "x # a" b] that by (simp add: after_Cons)
  show ?case using 1 Cons.IH[OF 2] by (simp add: after_Cons)
qed

lemma re_search_here:
  "rmatch p prev rest [] [] = Some r \<Longrightarrow> re_search p prev rest = Some r"
  by (cases rest) auto

lemma message_then_nl_fail:
  "not_nl x \<Longrightarrow> rmatch (Close k # Lit [NL] # p) prev (x # t) os cs = None"
  by (auto simp: not_nl_def rmatch.simps(6) split: option.splits)

lemma takeWhile_any: "takeWhile any_cu st = st"
  by (induction st) (simp_all add: any_cu_def)

lemma rmatch_message_stack:
  "rmatch [Open 2, Plus not_nl, Close 2, Lit [NL], Open 3, Plus any_cu, Close 3] prev u [] cs =
     (if takeWhile not_nl u = [] then None
      else (case dropWhile not_nl u of
              [] \<Rightarrow> None
            | c # st \<Rightarrow> if st = [] then None else Some ((3, st) # (2, takeWhile not_nl u) # cs)))"
proof -
  have nl: "c = NL" if "dropWhile not_nl u = c # st" for c st
    using hd_dropWhile[of not_nl u] that by (simp add: not_nl_def)
  show ?thesis
    by (auto simp: rmatch_Plus_det[OF message_then_nl_fail] rmatch_Plus_Close_last
          rmatch.simps(5,6) adv_def takeWhile_any dest: nl
        simp del: dropWhile_eq_Nil_conv takeWhile_eq_Nil_iff split: list.splits)
qed

lemma takeWhile_all: "list_all P (takeWhile P xs)"
  by (simp add: list_all_iff) (meson set_takeWhileD)

lemma rmatch_nodeRe_header:
  "rmatch nodeRe prev t [] [] =
     (if line_start prev \<and> suffix (str ''Error'') (takeWhile is_word_dot t) \<and>
         (\<exists>r1. dropWhile is_word_dot t = COLON # r1)
      then rmatch [Star is_space, Open 2, Plus not_nl, Close 2, Lit [NL], Open 3, Plus any_cu, Close 3]
             (Some COLON) (tl (dropWhile is_word_dot t)) [] [(1, takeWhile is_word_dot t)]
      else None)"
  by (auto simp: nodeRe_def line_start_def rmatch_error_header rmatch.simps(5,6) adv_def
      simp del: One_nat_def split: option.splits)

lemma node_tail_sound:
  assumes "rmatch [Star is_space, Open 2, Plus not_nl, Close 2, Lit [NL], Open 3, Plus any_cu, Close 3]
             prev r1 [] cs = Some m"
  shows "\<exists>ws msg st. r1 = ws @ msg @ NL # st \<and> list_all is_space ws \<and> msg \<noteq> [] \<and>
           NL \<notin> set msg \<and> st \<noteq> [] \<and> m = (3, st) # (2, msg) # cs"
proof -
  from rmatch_Star_sound[OF assms] obtain ws u where
    h: "r1 = ws @ u" "list_all is_space ws"
       "rmatch [Open 2, Plus not_nl, Close 2, Lit [NL], Open 3, Plus any_cu, Close 3]
          (after prev ws) u (advs ws []) cs = Some m"
    by blast
  from h(3) have ne: "takeWhile not_nl u \<noteq> []"
    by (simp add: rmatch_message_stack split: if_splits del: takeWhile_eq_Nil_iff rmatch.simps)
  from h(3) ne obtain c st where
    d: "dropWhile not_nl u = c # st" "st \<noteq> []" "m = (3, st) # (2, takeWhile not_nl u) # cs"
    by (auto simp: rmatch_message_stack split: if_splits list.splits
          simp del: takeWhile_eq_Nil_iff rmatch.simps)
  have c: "c = NL" using hd_dropWhile[of not_nl u] d(1) by (simp add: not_nl_def)
  have u: "u = takeWhile not_nl u @ NL # st"
    using takeWhile_dropWhile_id[of not_nl u] d(1) c by simp
  have "NL \<notin> set (takeWhile not_nl u)"
    using set_takeWhileD[of NL not_nl u] by (auto simp: not_nl_def)
  then show ?thesis using h(1,2) ne d(2,3) u
    by (intro exI[of _ ws] exI[of _ "takeWhile not_nl u"] exI[of _ st]) simp
qed

lemma message_stack_here:
  assumes "msg \<noteq> []" "NL \<notin> set msg" "st \<noteq> []"
  shows "rmatch [Open 2, Plus not_nl, Close 2, Lit [NL], Open 3, Plus any_cu, Close 3]
           prev (msg @ NL # st) [] cs = Some ((3, st) # (2, msg) # cs)"
proof -
  have a: "list_all not_nl msg" using assms(2) by (auto simp: list_all_iff not_nl_def)
  have n: "\<not> not_nl NL" by (simp add: not_nl_def)
  have tw: "takeWhile not_nl (msg @ NL # st) = msg" using a n by (rule takeWhile_run)
  have dw: "dropWhile not_nl (msg @ NL # st) = NL # st" using a n by (rule dropWhile_run)
  show ?thesis unfolding rmatch_message_stack tw dw using assms by simp
qed

lemma node_tail_exact:
  assumes "list_all is_space ws" "msg \<noteq> []" "\<not> is_space (hd msg)" "NL \<notin> set msg" "st \<noteq> []"
  shows "rmatch [Star is_space, Open 2, Plus not_nl, Close 2, Lit [NL], Open 3, Plus any_cu, Close 3]
           prev (ws @ msg @ NL # st) [] cs = Some ((3, st) # (2, msg) # cs)"
proof (rule rmatch_Star_greedy)
  show "list_all is_space ws" by (rule assms(1))
  show "msg @ NL # st = [] \<or> \<not> is_space (hd (msg @ NL # st))" using assms(2,3) by simp
  show "rmatch [Open 2, Plus not_nl, Close 2, Lit [NL], Open 3, Plus any_cu, Close 3]
          (after prev ws) (msg @ NL # st) (advs ws []) cs = Some ((3, st) # (2, msg) # cs)"
    using message_stack_here[OF assms(2,4,5)] by simp
qed

lemma node_tail_complete:
  assumes "list_all is_space ws" "msg \<noteq> []" "NL \<notin> set msg" "st \<noteq> []"
  shows "rmatch [Star is_space, Open 2, Plus not_nl, Close 2, Lit [NL], Open 3, Plus any_cu, Close 3]
           prev (ws @ msg @ NL # st) [] cs \<noteq> None"
proof (rule rmatch_Star_complete)
  show "list_all is_space ws" by (rule assms(1))
  show "rmatch [Open 2, Plus not_nl, Close 2, Lit [NL], Open 3, Plus any_cu, Close 3]
          (after prev ws) (msg @ NL # st) (advs ws []) cs \<noteq> None"
    using message_stack_here[OF assms(2,3,4)] by simp
qed

lemma header_run:
  assumes "dotted_error ty"
  shows "takeWhile is_word_dot (ty @ COLON # r1) = ty"
    and "dropWhile is_word_dot (ty @ COLON # r1) = COLON # r1"
    and "suffix (str ''Error'') ty"
  using assms not_word_dot_colon
  by (simp_all add: dotted_error_def takeWhile_run dropWhile_run)

lemma rmatch_nodeRe_sound:
  assumes "rmatch nodeRe prev t [] [] = Some m"
  shows "line_start prev \<and>
     (\<exists>ty ws msg st. t = ty @ COLON # ws @ msg @ NL # st \<and> dotted_error ty \<and>
        list_all is_space ws \<and> msg \<noteq> [] \<and> NL \<notin> set msg \<and> st \<noteq> [] \<and>
        m = [(3, st), (2, msg), (1, ty)])"
proof -
  from assms have ls: "line_start prev"
    and sf: "suffix (str ''Error'') (takeWhile is_word_dot t)"
    and "\<exists>r1. dropWhile is_word_dot t = COLON # r1"
    and tl: "rmatch [Star is_space, Open 2, Plus not_nl, Close 2, Lit [NL], Open 3, Plus any_cu, Close 3]
             (Some COLON) (tl (dropWhile is_word_dot t)) [] [(1, takeWhile is_word_dot t)] = Some m"
    by (simp_all add: rmatch_nodeRe_header split: if_splits del: rmatch.simps)
  then obtain r1 where dw: "dropWhile is_word_dot t = COLON # r1" by blast
  from node_tail_sound[OF tl] dw obtain ws msg st where
    h: "r1 = ws @ msg @ NL # st" "list_all is_space ws" "msg \<noteq> []" "NL \<notin> set msg" "st \<noteq> []"
       "m = [(3, st), (2, msg), (1, takeWhile is_word_dot t)]"
    by auto
  have t: "t = takeWhile is_word_dot t @ COLON # ws @ msg @ NL # st"
    using takeWhile_dropWhile_id[of is_word_dot t] dw h(1) by simp
  have de: "dotted_error (takeWhile is_word_dot t)"
    using sf takeWhile_all[of is_word_dot t] by (simp add: dotted_error_def)
  show ?thesis using ls t de h(2-6)
    by (intro conjI exI[of _ "takeWhile is_word_dot t"] exI[of _ ws] exI[of _ msg] exI[of _ st])
       simp_all
qed

lemma rmatch_nodeRe_exact:
  assumes "line_start prev" "dotted_error ty" "list_all is_space ws" "msg \<noteq> []"
    "\<not> is_space (hd msg)" "NL \<notin> set msg" "st \<noteq> []"
  shows "rmatch nodeRe prev (ty @ COLON # ws @ msg @ NL # st) [] [] =
           Some [(3, st), (2, msg), (1, ty)]"
  using assms(1) header_run[OF assms(2)] node_tail_exact[OF assms(3-7)]
  by (simp add: rmatch_nodeRe_header del: rmatch.simps)

lemma rmatch_nodeRe_complete:
  assumes "line_start prev" "dotted_error ty" "list_all is_space ws" "msg \<noteq> []"
    "NL \<notin> set msg" "st \<noteq> []"
  shows "rmatch nodeRe prev (ty @ COLON # ws @ msg @ NL # st) [] [] \<noteq> None"
  using assms(1) header_run[OF assms(2)] node_tail_complete[OF assms(3-6)]
  by (simp add: rmatch_nodeRe_header del: rmatch.simps)

lemma re_exec_nodeRe_sound:
  assumes "re_exec nodeRe s = Some m"
  shows "\<exists>pre ty ws msg st. s = pre @ ty @ COLON # ws @ msg @ NL # st \<and>
           line_start (after None pre) \<and> dotted_error ty \<and> list_all is_space ws \<and>
           msg \<noteq> [] \<and> NL \<notin> set msg \<and> st \<noteq> [] \<and> m = [(3, st), (2, msg), (1, ty)]"
proof -
  from assms re_search_sound obtain pre rest where
    p: "s = pre @ rest" "rmatch nodeRe (after None pre) rest [] [] = Some m"
    unfolding re_exec_def by blast
  from rmatch_nodeRe_sound[OF p(2)] obtain ty ws msg st where
    h: "line_start (after None pre)" "rest = ty @ COLON # ws @ msg @ NL # st" "dotted_error ty"
       "list_all is_space ws" "msg \<noteq> []" "NL \<notin> set msg" "st \<noteq> []"
       "m = [(3, st), (2, msg), (1, ty)]"
    by blast
  show ?thesis using p(1) h
    by (intro exI[of _ pre] exI[of _ ty] exI[of _ ws] exI[of _ msg] exI[of _ st]) simp
qed

lemma family_A_match_iff: "family_A_match s \<longleftrightarrow> re_exec nodeRe s \<noteq> None"
proof
  assume "family_A_match s"
  then obtain pre ty ws msg st where
    h: "s = pre @ ty @ COLON # ws @ msg @ NL # st" "line_start (after None pre)"
       "dotted_error ty" "list_all is_space ws" "msg \<noteq> []" "NL \<notin> set msg" "st \<noteq> []"
    unfolding family_A_match_def by blast
  from rmatch_nodeRe_complete[OF h(2-7)] show "re_exec nodeRe s \<noteq> None"
    unfolding re_exec_def h(1) by (rule re_search_complete)
next
  assume "re_exec nodeRe s \<noteq> None"
  then obtain m where "re_exec nodeRe s = Some m" by auto
  from re_exec_nodeRe_sound[OF this] show "family_A_match s"
    unfolding family_A_match_def by blast
qed

lemma first_at_Some: "first_at f s = Some x \<Longrightarrow> \<exists>u t. s = u @ t \<and> f t = Some x"
proof (induction s)
  case Nil
  then show ?case by simp
next
  case (Cons a s)
  show ?case
  proof (cases "f (a # s)")
    case None
    then have "first_at f s = Some x" using Cons.prems by simp
    from Cons.IH[OF this] obtain u t where "s = u @ t" "f t = Some x" by blast
    then show ?thesis by (intro exI[of _ "a # u"] exI[of _ t]) simp
  next
    case (Some y)
    then have "f (a # s) = Some x" using Cons.prems by simp
    then show ?thesis by (intro exI[of _ "[]"] exI[of _ "a # s"]) simp
  qed
qed

lemma spec_loc_here_Some:
  assumes "spec_loc_here t = Some (f, l, c)"
  shows "\<exists>v. t = f @ COLON # l @ COLON # c @ v"
proof -
  from assms obtain t1 where t: "t = SLASH # t1" and f: "f = SLASH # takeWhile not_colon_nl t1"
    by (cases t) (auto simp: spec_loc_here_def split: if_splits list.splits)
  from assms t obtain t2 where d1: "dropWhile not_colon_nl t1 = COLON # t2"
    and l: "l = takeWhile is_digit t2"
    by (auto simp: spec_loc_here_def split: if_splits list.splits)
  from assms t d1 obtain t3 where d2: "dropWhile is_digit t2 = COLON # t3"
    and c: "c = takeWhile is_digit t3"
    by (auto simp: spec_loc_here_def split: if_splits list.splits)
  have "t1 = takeWhile not_colon_nl t1 @ COLON # t2"
    using takeWhile_dropWhile_id[of not_colon_nl t1] d1 by simp
  moreover have "t2 = takeWhile is_digit t2 @ COLON # t3"
    using takeWhile_dropWhile_id[of is_digit t2] d2 by simp
  moreover have "t3 = takeWhile is_digit t3 @ dropWhile is_digit t3" by simp
  ultimately have "t = f @ COLON # l @ COLON # c @ dropWhile is_digit t3"
    using t f l c by simp
  then show ?thesis by blast
qed

lemma parseError_node_eq:
  assumes "re_exec nodeRe s = Some [(3, st), (2, msg), (1, ty)]" "s \<noteq> []"
  shows "parseError (Some s) =
     Some \<lparr> runtime = node, type = ty, message = msg,
            file = fst (spec_first_loc st), line = fst (snd (spec_first_loc st)),
            column = snd (snd (spec_first_loc st)), stack = st \<rparr>"
  using assms
  by (simp add: parseError_def group_def re_exec_locRe spec_first_loc_def Let_def
        split: option.splits prod.splits)

lemma parseError_node_sound:
  assumes "parseError (Some s) = Some r" "runtime r = node"
  shows "\<exists>pre ws. s = pre @ type r @ COLON # ws @ message r @ NL # stack r \<and>
           line_start (after None pre) \<and> dotted_error (type r) \<and> list_all is_space ws \<and>
           message r \<noteq> [] \<and> NL \<notin> set (message r) \<and> stack r \<noteq> [] \<and>
           (file r, line r, column r) = spec_first_loc (stack r)"
proof -
  from assms have ne: "s \<noteq> []" by (auto simp: parseError_def split: if_splits)
  from assms ne obtain m where m: "re_exec nodeRe s = Some m"
    by (cases "re_exec nodeRe s") (auto simp: parseError_def Let_def split: if_splits prod.splits)
  from re_exec_nodeRe_sound[OF m] obtain pre ty ws msg st where
    h: "s = pre @ ty @ COLON # ws @ msg @ NL # st" "line_start (after None pre)"
       "dotted_error ty" "list_all is_space ws" "msg \<noteq> []" "NL \<notin> set msg" "st \<noteq> []"
       "m = [(3, st), (2, msg), (1, ty)]"
    by blast
  from parseError_node_eq[OF m[unfolded h(8)] ne] assms(1)
  have r: "r = \<lparr> runtime = node, type = ty, message = msg,
            file = fst (spec_first_loc st), line = fst (snd (spec_first_loc st)),
            column = snd (snd (spec_first_loc st)), stack = st \<rparr>"
    by simp
  show ?thesis using h(1-7)
    by (intro exI[of _ pre] exI[of _ ws]) (simp add: r)
qed

lemma first_pos_split:
  "first_pos P prev (pre @ rest) = Some (length pre) \<Longrightarrow>
     P (after prev pre) rest \<and>
     (\<forall>a b. pre = a @ b \<and> b \<noteq> [] \<longrightarrow> \<not> P (after prev a) (b @ rest))"
proof (induction pre arbitrary: prev)
  case Nil
  then show ?case by (cases rest) (auto split: if_splits)
next
  case (Cons x pre)
  then have n: "\<not> P prev (x # pre @ rest)"
    and f: "first_pos P (Some x) (pre @ rest) = Some (length pre)"
    by (auto split: if_splits)
  from Cons.IH[OF f] have ih: "P (after (Some x) pre) rest"
    "\<forall>a b. pre = a @ b \<and> b \<noteq> [] \<longrightarrow> \<not> P (after (Some x) a) (b @ rest)"
    by blast+
  have "\<not> P (after prev a) (b @ rest)" if "x # pre = a @ b" "b \<noteq> []" for a b
  proof (cases a)
    case Nil
    then have "b = x # pre" using that by simp
    then show ?thesis using Nil n by simp
  next
    case (Cons y a')
    then show ?thesis using that ih(2) by (simp add: after_Cons)
  qed
  then show ?case using ih(1) by (simp add: after_Cons)
qed

lemma rmatch_nodeRe_needs_header:
  "\<not> spec_header_here prev t \<Longrightarrow> rmatch nodeRe prev t [] [] = None"
  by (auto simp: rmatch_nodeRe_header spec_header_here_def simp del: rmatch.simps)

lemma node_anchor_record:
  assumes s: "s = pre @ ty @ COLON # ws @ msg @ NL # st"
    and fh: "first_pos spec_header_here None s = Some (length pre)"
    and a: "dotted_error ty" "list_all is_space ws" "msg \<noteq> []" "\<not> is_space (hd msg)"
      "NL \<notin> set msg" "st \<noteq> []"
  shows "parseError (Some s) =
     Some \<lparr> runtime = node, type = ty, message = msg,
            file = fst (spec_first_loc st), line = fst (snd (spec_first_loc st)),
            column = snd (snd (spec_first_loc st)), stack = st \<rparr>"
proof -
  let ?rest = "ty @ COLON # ws @ msg @ NL # st"
  from first_pos_split[OF fh[unfolded s]]
  have here: "spec_header_here (after None pre) ?rest"
    and before: "\<And>a b. pre = a @ b \<Longrightarrow> b \<noteq> [] \<Longrightarrow> \<not> spec_header_here (after None a) (b @ ?rest)"
    by blast+
  have ls: "line_start (after None pre)" using here by (simp add: spec_header_here_def)
  have "re_search nodeRe None (pre @ ?rest) = re_search nodeRe (after None pre) ?rest"
    by (rule re_search_skip) (rule rmatch_nodeRe_needs_header, rule before)
  also have "\<dots> = Some [(3, st), (2, msg), (1, ty)]"
    by (rule re_search_here) (rule rmatch_nodeRe_exact[OF ls a])
  finally have "re_exec nodeRe s = Some [(3, st), (2, msg), (1, ty)]"
    by (simp add: re_exec_def s)
  moreover have "s \<noteq> []" by (simp add: s)
  ultimately show ?thesis by (rule parseError_node_eq)
qed

subsection \<open>What the notions say\<close>

text \<open>
  The scanners that state the properties are programs too. The lemmas of this subsection
  give each of them as a decomposition of the text it reads, so that a property stated
  with a scanner can be read without running it.
\<close>

text \<open>
  \<open>first_at f s\<close> is what \<open>f\<close> finds at the leftmost position of \<open>s\<close> where it
  finds anything: \<open>s\<close> is \<open>u @ t\<close>, \<open>f\<close> finds \<open>x\<close> at \<open>t\<close>, and nothing at a position
  inside \<open>u\<close>.
\<close>

lemma first_at_iff:
  "first_at f s = Some x \<longleftrightarrow>
     (\<exists>u t. s = u @ t \<and> f t = Some x \<and> (\<forall>a b. u = a @ b \<and> b \<noteq> [] \<longrightarrow> f (b @ t) = None))"
proof (induction s)
  case Nil
  then show ?case by auto
next
  case (Cons c s)
  show ?case
  proof (cases "f (c # s)")
    case (Some y)
    have "(\<exists>u t. c # s = u @ t \<and> f t = Some x \<and> (\<forall>a b. u = a @ b \<and> b \<noteq> [] \<longrightarrow> f (b @ t) = None))
            \<longleftrightarrow> y = x"
    proof
      assume "\<exists>u t. c # s = u @ t \<and> f t = Some x \<and> (\<forall>a b. u = a @ b \<and> b \<noteq> [] \<longrightarrow> f (b @ t) = None)"
      then obtain u t where h: "c # s = u @ t" "f t = Some x"
        "\<forall>a b. u = a @ b \<and> b \<noteq> [] \<longrightarrow> f (b @ t) = None" by blast
      show "y = x"
      proof (cases u)
        case Nil
        then show ?thesis using h Some by simp
      next
        case (Cons d u')
        then have "f (u @ t) = None" using h(3)[rule_format, of "[]" u] by simp
        then show ?thesis using h(1) Some by simp
      qed
    next
      assume "y = x"
      then show "\<exists>u t. c # s = u @ t \<and> f t = Some x \<and> (\<forall>a b. u = a @ b \<and> b \<noteq> [] \<longrightarrow> f (b @ t) = None)"
        using Some by (intro exI[of _ "[]"] exI[of _ "c # s"]) simp
    qed
    then show ?thesis using Some by simp
  next
    case None
    have "(\<exists>u t. c # s = u @ t \<and> f t = Some x \<and> (\<forall>a b. u = a @ b \<and> b \<noteq> [] \<longrightarrow> f (b @ t) = None))
            \<longleftrightarrow> (\<exists>u t. s = u @ t \<and> f t = Some x \<and> (\<forall>a b. u = a @ b \<and> b \<noteq> [] \<longrightarrow> f (b @ t) = None))"
      (is "?A \<longleftrightarrow> ?B")
    proof
      assume ?A
      then obtain u t where h: "c # s = u @ t" "f t = Some x"
        "\<forall>a b. u = a @ b \<and> b \<noteq> [] \<longrightarrow> f (b @ t) = None" by blast
      show ?B
      proof (cases u)
        case Nil
        then show ?thesis using h None by simp
      next
        case (Cons d u')
        then have s: "s = u' @ t" using h(1) by simp
        have "\<forall>a b. u' = a @ b \<and> b \<noteq> [] \<longrightarrow> f (b @ t) = None"
          using h(3) Cons by (metis append_Cons)
        then show ?thesis using s h(2) by blast
      qed
    next
      assume ?B
      then obtain u t where h: "s = u @ t" "f t = Some x"
        "\<forall>a b. u = a @ b \<and> b \<noteq> [] \<longrightarrow> f (b @ t) = None" by blast
      have "\<forall>a b. c # u = a @ b \<and> b \<noteq> [] \<longrightarrow> f (b @ t) = None"
      proof (intro allI impI)
        fix a b assume ab: "c # u = a @ b \<and> b \<noteq> []"
        show "f (b @ t) = None"
        proof (cases a)
          case Nil
          then show ?thesis using ab None h(1) by auto
        next
          case (Cons d a')
          then show ?thesis using ab h(3) by auto
        qed
      qed
      then show ?A using h(1,2) by (intro exI[of _ "c # u"] exI[of _ t]) simp
    qed
    then show ?thesis using None Cons.IH by simp
  qed
qed

text \<open>The longest run of code units of a class at the start of a text.\<close>

lemma run_split:
  "takeWhile P t = xs \<and> dropWhile P t = r \<longleftrightarrow>
     t = xs @ r \<and> list_all P xs \<and> (r = [] \<or> \<not> P (hd r))"
proof
  assume "takeWhile P t = xs \<and> dropWhile P t = r"
  then show "t = xs @ r \<and> list_all P xs \<and> (r = [] \<or> \<not> P (hd r))"
    using takeWhile_dropWhile_id[of P t] takeWhile_all[of P t] hd_dropWhile[of P t] by auto
next
  assume a: "t = xs @ r \<and> list_all P xs \<and> (r = [] \<or> \<not> P (hd r))"
  show "takeWhile P t = xs \<and> dropWhile P t = r"
  proof (cases r)
    case Nil
    then show ?thesis using a by (simp add: list_all_iff)
  next
    case (Cons y ys)
    then show ?thesis using a by (simp add: takeWhile_run dropWhile_run)
  qed
qed

lemma run_of_space:
  "dropWhile is_space r = m \<longleftrightarrow>
     (\<exists>ws. r = ws @ m \<and> list_all is_space ws \<and> (m = [] \<or> \<not> is_space (hd m)))"
proof
  assume "dropWhile is_space r = m"
  then have "takeWhile is_space r = takeWhile is_space r \<and> dropWhile is_space r = m" by simp
  then have "r = takeWhile is_space r @ m \<and> list_all is_space (takeWhile is_space r) \<and>
      (m = [] \<or> \<not> is_space (hd m))"
    by (rule run_split[THEN iffD1])
  then show "\<exists>ws. r = ws @ m \<and> list_all is_space ws \<and> (m = [] \<or> \<not> is_space (hd m))"
    by (rule exI)
next
  assume "\<exists>ws. r = ws @ m \<and> list_all is_space ws \<and> (m = [] \<or> \<not> is_space (hd m))"
  then obtain ws where "r = ws @ m \<and> list_all is_space ws \<and> (m = [] \<or> \<not> is_space (hd m))" ..
  then have "takeWhile is_space r = ws \<and> dropWhile is_space r = m"
    by (rule run_split[THEN iffD2])
  then show "dropWhile is_space r = m" ..
qed

text \<open>
  A location occurrence at the start of \<open>t\<close>: a slash, one or more code units other than
  colon and line feed, a colon, all the digits that follow (one at least), a colon, and all
  the digits that follow (one at least).
\<close>

lemma spec_loc_here_iff:
  "spec_loc_here t = Some (f, l, c) \<longleftrightarrow>
     (\<exists>p v. f = SLASH # p \<and> t = f @ COLON # l @ COLON # c @ v \<and>
        p \<noteq> [] \<and> list_all not_colon_nl p \<and> l \<noteq> [] \<and> list_all is_digit l \<and>
        c \<noteq> [] \<and> list_all is_digit c \<and> (v = [] \<or> \<not> is_digit (hd v)))"
  (is "?L \<longleftrightarrow> ?R")
proof
  assume L: ?L
  from L obtain t1 where t: "t = SLASH # t1" and f: "f = SLASH # takeWhile not_colon_nl t1"
    and pne: "takeWhile not_colon_nl t1 \<noteq> []"
    by (cases t) (auto simp: spec_loc_here_def split: if_splits list.splits)
  from L t obtain t2 where d1: "dropWhile not_colon_nl t1 = COLON # t2"
    and l: "l = takeWhile is_digit t2" and lne: "takeWhile is_digit t2 \<noteq> []"
    by (auto simp: spec_loc_here_def split: if_splits list.splits)
  from L t d1 obtain t3 where d2: "dropWhile is_digit t2 = COLON # t3"
    and c: "c = takeWhile is_digit t3" and cne: "takeWhile is_digit t3 \<noteq> []"
    by (auto simp: spec_loc_here_def split: if_splits list.splits)
  have 1: "t1 = takeWhile not_colon_nl t1 @ COLON # t2"
    using takeWhile_dropWhile_id[of not_colon_nl t1] d1 by simp
  have 2: "t2 = takeWhile is_digit t2 @ COLON # t3"
    using takeWhile_dropWhile_id[of is_digit t2] d2 by simp
  have 3: "t3 = takeWhile is_digit t3 @ dropWhile is_digit t3" by simp
  have "t = f @ COLON # l @ COLON # c @ dropWhile is_digit t3"
    using t f l c 1 2 3 by simp
  moreover have "dropWhile is_digit t3 = [] \<or> \<not> is_digit (hd (dropWhile is_digit t3))"
    using hd_dropWhile[of is_digit t3] by blast
  ultimately show ?R
    using f l c pne lne cne takeWhile_all[of not_colon_nl t1] takeWhile_all[of is_digit t2]
      takeWhile_all[of is_digit t3]
    by (intro exI[of _ "takeWhile not_colon_nl t1"] exI[of _ "dropWhile is_digit t3"]) simp
next
  assume ?R
  then obtain p v where h: "f = SLASH # p" "t = f @ COLON # l @ COLON # c @ v" "p \<noteq> []"
    "list_all not_colon_nl p" "l \<noteq> []" "list_all is_digit l" "c \<noteq> []" "list_all is_digit c"
    "v = [] \<or> \<not> is_digit (hd v)" by blast
  have nc: "\<not> not_colon_nl COLON" "\<not> is_digit COLON"
    by (simp_all add: not_colon_nl_def is_digit_def)
  have 1: "takeWhile not_colon_nl (p @ COLON # l @ COLON # c @ v) = p"
    "dropWhile not_colon_nl (p @ COLON # l @ COLON # c @ v) = COLON # l @ COLON # c @ v"
    using h(4) nc(1) by (simp_all add: takeWhile_run dropWhile_run)
  have 2: "takeWhile is_digit (l @ COLON # c @ v) = l"
    "dropWhile is_digit (l @ COLON # c @ v) = COLON # c @ v"
    using h(6) nc(2) by (simp_all add: takeWhile_run dropWhile_run)
  have 3: "takeWhile is_digit (c @ v) = c"
    using run_split[of is_digit "c @ v" c v] h(8,9) by simp
  show ?L
    using h(1,2,3,5,7) by (simp add: spec_loc_here_def 1 2 3)
qed

text \<open>
  A frame at the start of \<open>t\<close>: \<^verbatim>\<open>File "\<close>, one or more code units other than a double
  quote, \<^verbatim>\<open>", line \<close>, and all the digits that follow (one at least).
\<close>

lemma spec_frame_here_iff:
  "spec_frame_here t = Some (p, d) \<longleftrightarrow>
     (\<exists>v. t = str ''File '' @ DQUOTE # p @ DQUOTE # str '', line '' @ d @ v \<and>
        p \<noteq> [] \<and> list_all not_dquote p \<and> d \<noteq> [] \<and> list_all is_digit d \<and>
        (v = [] \<or> \<not> is_digit (hd v)))"
  (is "?L \<longleftrightarrow> ?R")
proof
  assume L: ?L
  have c0: "\<not> \<not> prefix (str ''File '' @ [DQUOTE]) t"
    using L unfolding spec_frame_here_def by (rule contrapos_pn) simp
  then obtain t1 where t: "t = (str ''File '' @ [DQUOTE]) @ t1"
    unfolding prefix_def by blast
  have dr: "drop (length (str ''File '' @ [DQUOTE])) t = t1" unfolding t by simp
  have L1: "(if takeWhile not_dquote t1 = [] \<or>
                \<not> prefix (DQUOTE # str '', line '') (dropWhile not_dquote t1) then None
             else if takeWhile is_digit (drop (length (DQUOTE # str '', line ''))
                       (dropWhile not_dquote t1)) = [] then None
             else Some (takeWhile not_dquote t1, takeWhile is_digit
                      (drop (length (DQUOTE # str '', line '')) (dropWhile not_dquote t1))))
            = Some (p, d)"
    using L c0 unfolding spec_frame_here_def Let_def dr by simp
  have c1: "\<not> (takeWhile not_dquote t1 = [] \<or>
                \<not> prefix (DQUOTE # str '', line '') (dropWhile not_dquote t1))"
    using L1 by (rule contrapos_pn) simp
  then obtain t2 where t2: "dropWhile not_dquote t1 = (DQUOTE # str '', line '') @ t2"
    unfolding prefix_def by blast
  have dr2: "drop (length (DQUOTE # str '', line '')) (dropWhile not_dquote t1) = t2"
    unfolding t2 by simp
  have L2: "(if takeWhile is_digit t2 = [] then None
             else Some (takeWhile not_dquote t1, takeWhile is_digit t2)) = Some (p, d)"
    using L1 c1 unfolding dr2 by simp
  have c2: "takeWhile is_digit t2 \<noteq> []"
    using L2 by (rule contrapos_pn) simp
  have p: "p = takeWhile not_dquote t1" and d: "d = takeWhile is_digit t2"
    using L2 c2 by simp_all
  have pne: "p \<noteq> []" using c1 p by simp
  have dne: "d \<noteq> []" using c2 d by simp
  have "t1 = takeWhile not_dquote t1 @ dropWhile not_dquote t1" by simp
  then have e1: "t1 = p @ (DQUOTE # str '', line '') @ t2" unfolding t2 p[symmetric] .
  have "t2 = takeWhile is_digit t2 @ dropWhile is_digit t2" by simp
  then have e2: "t2 = d @ dropWhile is_digit t2" unfolding d[symmetric] .
  have e: "t = str ''File '' @ DQUOTE # p @ DQUOTE # str '', line '' @ d @ dropWhile is_digit t2"
    using t e1 e2 by simp
  have v: "dropWhile is_digit t2 = [] \<or> \<not> is_digit (hd (dropWhile is_digit t2))"
    using hd_dropWhile[of is_digit t2] by blast
  have pa: "list_all not_dquote p" unfolding p by (rule takeWhile_all)
  have da: "list_all is_digit d" unfolding d by (rule takeWhile_all)
  show ?R using e v pne dne pa da by (intro exI[of _ "dropWhile is_digit t2"]) simp
next
  assume ?R
  then obtain v where h: "t = str ''File '' @ DQUOTE # p @ DQUOTE # str '', line '' @ d @ v"
    "p \<noteq> []" "list_all not_dquote p" "d \<noteq> []" "list_all is_digit d"
    "v = [] \<or> \<not> is_digit (hd v)" by blast
  have t: "t = (str ''File '' @ [DQUOTE]) @ p @ (DQUOTE # str '', line '') @ d @ v"
    using h(1) by simp
  have pre: "prefix (str ''File '' @ [DQUOTE]) t" unfolding t by (rule prefixI) (rule refl)
  have dr: "drop (length (str ''File '' @ [DQUOTE])) t = p @ DQUOTE # (str '', line '' @ d @ v)"
    unfolding t by simp
  have nq: "\<not> not_dquote DQUOTE" by (simp add: not_dquote_def)
  have 1: "takeWhile not_dquote (p @ DQUOTE # (str '', line '' @ d @ v)) = p"
    "dropWhile not_dquote (p @ DQUOTE # (str '', line '' @ d @ v)) = (DQUOTE # str '', line '') @ d @ v"
    using h(3) nq by (simp_all add: takeWhile_run dropWhile_run)
  have pre2: "prefix (DQUOTE # str '', line '') ((DQUOTE # str '', line '') @ d @ v)"
    by (rule prefixI) (rule refl)
  have dr2: "drop (length (DQUOTE # str '', line '')) ((DQUOTE # str '', line '') @ d @ v) = d @ v"
    by simp
  have 2: "takeWhile is_digit (d @ v) = d"
    using run_split[of is_digit "d @ v" d v] h(5,6) by simp
  show ?L
    unfolding spec_frame_here_def dr Let_def 1 dr2 2 using pre pre2 h(2,4) by simp
qed

text \<open>
  The frame of a list of lines is the first frame of a line that has one and that no line
  with a frame follows.
\<close>

lemma spec_last_frame_None:
  "spec_last_frame ls = None \<longleftrightarrow> (\<forall>l \<in> set ls. first_at spec_frame_here l = None)"
  by (induction ls) (auto split: option.splits)

lemma spec_last_frame_append:
  "spec_last_frame (a @ b) =
     (case spec_last_frame b of Some r \<Rightarrow> Some r | None \<Rightarrow> spec_last_frame a)"
  by (induction a) (auto split: option.splits)

lemma spec_last_frame_iff:
  "spec_last_frame ls = Some x \<longleftrightarrow>
     (\<exists>a l b. ls = a @ l # b \<and> first_at spec_frame_here l = Some x \<and>
        (\<forall>l' \<in> set b. first_at spec_frame_here l' = None))"
  (is "?L ls \<longleftrightarrow> ?R ls")
proof
  show "?L ls \<Longrightarrow> ?R ls"
  proof (induction ls)
    case Nil
    then show ?case by simp
  next
    case (Cons l0 ls)
    show ?case
    proof (cases "spec_last_frame ls")
      case (Some y)
      then have "spec_last_frame ls = Some x" using Cons.prems by simp
      then obtain a l b where h: "ls = a @ l # b" "first_at spec_frame_here l = Some x"
        "\<forall>l' \<in> set b. first_at spec_frame_here l' = None" using Cons.IH by blast
      have "l0 # ls = (l0 # a) @ l # b" using h(1) by simp
      then show ?thesis using h(2,3) by blast
    next
      case None
      then have "first_at spec_frame_here l0 = Some x" using Cons.prems by simp
      moreover have "\<forall>l' \<in> set ls. first_at spec_frame_here l' = None"
        using None by (simp add: spec_last_frame_None)
      moreover have "l0 # ls = [] @ l0 # ls" by simp
      ultimately show ?thesis by blast
    qed
  qed
next
  assume "?R ls"
  then obtain a l b where h: "ls = a @ l # b" "first_at spec_frame_here l = Some x"
    "\<forall>l' \<in> set b. first_at spec_frame_here l' = None" by blast
  have "spec_last_frame b = None" using h(3) by (simp add: spec_last_frame_None)
  then have "spec_last_frame (l # b) = Some x" using h(2) by simp
  then show "?L ls" unfolding h(1) spec_last_frame_append by simp
qed

text \<open>
  A line \<^verbatim>\<open><identifier>: <message>\<close>: the identifier, a colon, all the white space that
  follows, and a message without a line terminator.
\<close>

lemma spec_py_kind_msg_iff:
  "spec_py_kind_msg l = Some (k, m) \<longleftrightarrow>
     (\<exists>ws. l = k @ COLON # ws @ m \<and> k \<noteq> [] \<and> is_ident_start (hd k) \<and> list_all is_word k \<and>
        list_all is_space ws \<and> (m = [] \<or> \<not> is_space (hd m)) \<and> list_all dot_class m)"
  (is "?L \<longleftrightarrow> ?R")
proof
  assume L: ?L
  have c1: "\<not> (takeWhile is_word l = [] \<or> \<not> is_ident_start (hd (takeWhile is_word l)))"
    using L unfolding spec_py_kind_msg_def Let_def by (rule contrapos_pn) simp
  then have L2: "(case dropWhile is_word l of [] \<Rightarrow> None
            | c # r1 \<Rightarrow> if c \<noteq> COLON \<or> \<not> list_all dot_class (dropWhile is_space r1) then None
                else Some (takeWhile is_word l, dropWhile is_space r1)) = Some (k, m)"
    using L unfolding spec_py_kind_msg_def Let_def by simp
  then obtain c r1 where d0: "dropWhile is_word l = c # r1"
    by (cases "dropWhile is_word l") simp_all
  have L3: "(if c \<noteq> COLON \<or> \<not> list_all dot_class (dropWhile is_space r1) then None
                else Some (takeWhile is_word l, dropWhile is_space r1)) = Some (k, m)"
    using L2 unfolding d0 by simp
  have c2: "\<not> (c \<noteq> COLON \<or> \<not> list_all dot_class (dropWhile is_space r1))"
    using L3 by (rule contrapos_pn) simp
  have k: "k = takeWhile is_word l" and m: "m = dropWhile is_space r1"
    using L3 c2 by simp_all
  have d: "dropWhile is_word l = COLON # r1" using d0 c2 by simp
  have dm: "list_all dot_class m" using c2 m by simp
  obtain ws where ws: "r1 = ws @ m" "list_all is_space ws" "m = [] \<or> \<not> is_space (hd m)"
    using run_of_space[of r1 m, THEN iffD1, OF m[symmetric]] by blast
  have "l = takeWhile is_word l @ dropWhile is_word l" by simp
  then have e: "l = k @ COLON # ws @ m" unfolding d ws(1) k[symmetric] .
  have kw: "list_all is_word k" unfolding k by (rule takeWhile_all)
  have kne: "k \<noteq> []" "is_ident_start (hd k)" using c1 k by simp_all
  show ?R using e kne kw ws(2,3) dm by (intro exI[of _ ws]) simp
next
  assume ?R
  then obtain ws where h: "l = k @ COLON # ws @ m" "k \<noteq> []" "is_ident_start (hd k)"
    "list_all is_word k" "list_all is_space ws" "m = [] \<or> \<not> is_space (hd m)"
    "list_all dot_class m" by blast
  have nc: "\<not> is_word COLON" by (simp add: is_word_def is_ident_start_def is_digit_def)
  have 1: "takeWhile is_word l = k" "dropWhile is_word l = COLON # ws @ m"
    unfolding h(1) using h(4) nc by (simp_all add: takeWhile_run dropWhile_run)
  have 2: "dropWhile is_space (ws @ m) = m"
    by (rule run_of_space[THEN iffD2]) (use h(5,6) in blast)
  show ?L unfolding spec_py_kind_msg_def Let_def 1 using h(2,3,7) by (simp add: 2)
qed

text \<open>The same with a dotted identifier that ends in \<open>Error\<close>.\<close>

lemma spec_node_kind_msg_iff:
  "spec_node_kind_msg l = Some (k, m) \<longleftrightarrow>
     (\<exists>ws. l = k @ COLON # ws @ m \<and> dotted_error k \<and>
        list_all is_space ws \<and> (m = [] \<or> \<not> is_space (hd m)) \<and> list_all dot_class m)"
  (is "?L \<longleftrightarrow> ?R")
proof
  assume L: ?L
  have c1: "\<not> \<not> suffix (str ''Error'') (takeWhile is_word_dot l)"
    using L unfolding spec_node_kind_msg_def Let_def by (rule contrapos_pn) simp
  then have L2: "(case dropWhile is_word_dot l of [] \<Rightarrow> None
            | c # r1 \<Rightarrow> if c \<noteq> COLON \<or> \<not> list_all dot_class (dropWhile is_space r1) then None
                else Some (takeWhile is_word_dot l, dropWhile is_space r1)) = Some (k, m)"
    using L unfolding spec_node_kind_msg_def Let_def by simp
  then obtain c r1 where d0: "dropWhile is_word_dot l = c # r1"
    by (cases "dropWhile is_word_dot l") simp_all
  have L3: "(if c \<noteq> COLON \<or> \<not> list_all dot_class (dropWhile is_space r1) then None
                else Some (takeWhile is_word_dot l, dropWhile is_space r1)) = Some (k, m)"
    using L2 unfolding d0 by simp
  have c2: "\<not> (c \<noteq> COLON \<or> \<not> list_all dot_class (dropWhile is_space r1))"
    using L3 by (rule contrapos_pn) simp
  have k: "k = takeWhile is_word_dot l" and m: "m = dropWhile is_space r1"
    using L3 c2 by simp_all
  have d: "dropWhile is_word_dot l = COLON # r1" using d0 c2 by simp
  have dm: "list_all dot_class m" using c2 m by simp
  obtain ws where ws: "r1 = ws @ m" "list_all is_space ws" "m = [] \<or> \<not> is_space (hd m)"
    using run_of_space[of r1 m, THEN iffD1, OF m[symmetric]] by blast
  have "l = takeWhile is_word_dot l @ dropWhile is_word_dot l" by simp
  then have e: "l = k @ COLON # ws @ m" unfolding d ws(1) k[symmetric] .
  have kw: "list_all is_word_dot k" unfolding k by (rule takeWhile_all)
  have de: "dotted_error k" unfolding dotted_error_def using kw c1 k by simp
  show ?R using e de ws(2,3) dm by (intro exI[of _ ws]) simp
next
  assume ?R
  then obtain ws where h: "l = k @ COLON # ws @ m" "dotted_error k"
    "list_all is_space ws" "m = [] \<or> \<not> is_space (hd m)" "list_all dot_class m" by blast
  have 1: "takeWhile is_word_dot l = k" "dropWhile is_word_dot l = COLON # ws @ m"
    unfolding h(1) by (rule header_run[OF h(2)])+
  have 2: "dropWhile is_space (ws @ m) = m"
    by (rule run_of_space[THEN iffD2]) (use h(3,4) in blast)
  have 3: "suffix (str ''Error'') k" by (rule header_run(3)[OF h(2)])
  show ?L unfolding spec_node_kind_msg_def Let_def 1 using 3 h(5) by (simp add: 2)
qed

text \<open>The last line that is not blank is followed by blank lines only.\<close>

lemma spec_last_nonblank_last:
  assumes "nonblank l" and "\<forall>x \<in> set b. \<not> nonblank x"
  shows "spec_last_nonblank (a @ l # b) = l"
proof -
  have "filter nonblank b = []" using assms(2) by (simp add: filter_empty_conv)
  then show ?thesis using assms(1) by (simp add: spec_last_nonblank_def)
qed

lemma spec_last_nonblank_none:
  "\<forall>x \<in> set ls. \<not> nonblank x \<Longrightarrow> spec_last_nonblank ls = []"
  by (simp add: spec_last_nonblank_def filter_empty_conv)

section \<open>Lines\<close>

lemma trim_eq_Nil_iff: "trim s = [] \<longleftrightarrow> (\<forall>c \<in> set s. is_space c)"
proof -
  have "dropWhile is_space (rev (dropWhile is_space s)) = [] \<longleftrightarrow> dropWhile is_space s = []"
  proof
    assume a: "dropWhile is_space (rev (dropWhile is_space s)) = []"
    show "dropWhile is_space s = []"
    proof (rule ccontr)
      assume n: "dropWhile is_space s \<noteq> []"
      then have "\<not> is_space (hd (dropWhile is_space s))" by (rule hd_dropWhile)
      moreover have "hd (dropWhile is_space s) \<in> set (rev (dropWhile is_space s))" using n by simp
      ultimately show False using a by (metis dropWhile_eq_Nil_conv)
    qed
  next
    assume "dropWhile is_space s = []"
    then show "dropWhile is_space (rev (dropWhile is_space s)) = []" by (simp del: dropWhile_eq_Nil_conv)
  qed
  then have "trim s = [] \<longleftrightarrow> dropWhile is_space s = []" by (simp add: trim_def del: dropWhile_eq_Nil_conv)
  then show ?thesis by simp
qed

lemma trim_nonblank: "(length (trim l) > 0) = nonblank l"
  by (auto simp: trim_eq_Nil_iff nonblank_def)

lemma split_nl_no_NL: "NL \<notin> set l \<Longrightarrow> split_nl l = [l]"
  by (induction l) auto

lemma split_nl_append: "NL \<notin> set l \<Longrightarrow> split_nl (l @ NL # rest) = l # split_nl rest"
  by (induction l) auto

lemma split_nl_join:
  "lines \<noteq> [] \<Longrightarrow> \<forall>l \<in> set lines. NL \<notin> set l \<Longrightarrow> split_nl (join_nl lines) = lines"
proof (induction lines rule: join_nl.induct)
  case 1
  then show ?case by simp
next
  case (2 p)
  then show ?case by (simp add: split_nl_no_NL)
next
  case (3 p q ps)
  then show ?case by (simp add: split_nl_append)
qed

lemma join_nl_Cons: "join_nl ((c # a) # ls) = c # join_nl (a # ls)"
  by (cases ls) simp_all

lemma join_nl_Nil_Cons: "join_nl ([] # a # ls) = NL # join_nl (a # ls)"
  by simp

lemma join_split_nl: "join_nl (split_nl s) = s"
proof (induction s)
  case Nil
  then show ?case by simp
next
  case (Cons c s)
  then show ?case
    by (cases "split_nl s") (auto simp: join_nl_Cons)
qed

lemma find_filter_hd: "find P xs = (case filter P xs of [] \<Rightarrow> None | x # _ \<Rightarrow> Some x)"
  by (induction xs) auto

lemma find_rev_last:
  "find P (rev xs) = (if filter P xs = [] then None else Some (last (filter P xs)))"
proof (cases "filter P xs" rule: rev_cases)
  case Nil
  then have "filter P (rev xs) = []" by (simp add: rev_filter[symmetric])
  then show ?thesis using Nil by (simp add: find_filter_hd)
next
  case (snoc ys y)
  then have "filter P (rev xs) = y # rev ys" by (simp add: rev_filter[symmetric])
  then show ?thesis using snoc by (simp add: find_filter_hd)
qed

lemma trim_nonblank_neq: "(trim l \<noteq> []) = nonblank l"
  using trim_nonblank[of l] by simp

lemma firstLine_spec:
  "firstLine s = (case filter nonblank (split_nl s) of [] \<Rightarrow> [] | l # _ \<Rightarrow> l)"
  by (simp add: firstLine_def trim_nonblank_neq find_filter_hd split: list.splits)

lemma lastLineText_spec: "lastLineText lines = spec_last_nonblank lines"
  by (simp add: lastLineText_def spec_last_nonblank_def trim_nonblank_neq find_rev_last)

lemma slice0_take: "0 \<le> e \<Longrightarrow> slice0 s e = take (nat e) s"
  by (simp add: slice0_def Let_def min_def)

lemma spec_node_kind_nonempty: "spec_node_kind_msg l = Some (k, m) \<Longrightarrow> k \<noteq> []"
  by (auto simp: spec_node_kind_msg_def Let_def str_def suffix_def split: if_splits list.splits)

lemma spec_py_kind_nonempty: "spec_py_kind_msg l = Some (k, m) \<Longrightarrow> k \<noteq> []"
  by (auto simp: spec_py_kind_msg_def Let_def split: if_splits list.splits)

lemma nonblank_nonempty: "nonblank l \<Longrightarrow> l \<noteq> []"
  by (auto simp: nonblank_def)

section \<open>The examples, evaluated\<close>

lemma parseError_scenario1: "parseError (Some scenario1) = Some scenario1_record"
  by code_simp

lemma parseError_scenario2: "parseError (Some scenario2) = Some scenario2_record"
  by code_simp

lemma parseError_node_example: "parseError (Some node_example) = Some node_example_record"
  by code_simp

lemma two_frames_eval:
  "re_test tracebackRe two_frames"
  "re_exec nodeRe two_frames = None"
  "last_at spec_frame_here two_frames = Some (str ''b.py'', str ''2'')"
  "parseError (Some two_frames) =
     Some \<lparr> runtime = python, type = str ''ValueError'', message = str ''x'',
            file = Some (str ''a.py''), line = Some 1, column = None, stack = two_frames \<rparr>"
  by code_simp+

lemma scenario2_eval:
  "re_test tracebackRe scenario2"
  "re_exec nodeRe scenario2 = None"
  "spec_last_frame scenario2_lines = Some (str ''/tmp/app.py'', str ''3'')"
  "Number (str ''3'') = 3"
  by code_simp+

section \<open>The invariant of the record\<close>

text \<open>
  Claim C10. In every record \<open>parseError\<close> returns: when the family is \<open>node\<close>, \<open>file\<close>,
  \<open>line\<close> and \<open>column\<close> are all present or all absent; when the family is \<open>python\<close>,
  \<open>column\<close> is absent and \<open>file\<close> and \<open>line\<close> are both present or both absent.
\<close>

theorem record_location_invariant:
  assumes "parseError x = Some r"
  shows "(runtime r = node \<longrightarrow>
            (file r = None \<and> line r = None \<and> column r = None) \<or>
            (file r \<noteq> None \<and> line r \<noteq> None \<and> column r \<noteq> None))
       \<and> (runtime r = python \<longrightarrow>
            column r = None \<and> (file r = None \<longleftrightarrow> line r = None))"
  using assms
  by (auto simp: parseError_def re_exec_locRe scan_lines_spec group_def Let_def
        split: option.splits if_splits prod.splits)

theorem record_location_invariant_witness:
  "(runtime scenario1_record = node \<and> file scenario1_record \<noteq> None \<and>
    line scenario1_record \<noteq> None \<and> column scenario1_record \<noteq> None)
   \<and> (runtime scenario2_record = python \<and> column scenario2_record = None \<and>
      file scenario2_record \<noteq> None \<and> line scenario2_record \<noteq> None)"
  using record_location_invariant[OF parseError_scenario1]
        record_location_invariant[OF parseError_scenario2]
  by (simp add: scenario1_record_def scenario2_record_def)

section \<open>The rendered report\<close>

lemma join_nl_mem: "part \<in> set parts \<Longrightarrow> \<exists>pre post. join_nl parts = pre @ part @ post"
proof (induction parts rule: join_nl.induct)
  case 1
  then show ?case by simp
next
  case (2 p)
  then show ?case by (intro exI[of _ "[]"]) simp
next
  case (3 p q ps)
  show ?case
  proof (cases "part = p")
    case True
    then show ?thesis by (intro exI[of _ "[]"] exI[of _ "NL # join_nl (q # ps)"]) simp
  next
    case False
    then have "part \<in> set (q # ps)" using 3 by simp
    from 3(1)[OF this] obtain pre post where "join_nl (q # ps) = pre @ part @ post" by blast
    then show ?thesis by (intro exI[of _ "p @ NL # pre"] exI[of _ post]) simp
  qed
qed

lemma length_marker: "length truncation_marker = 13"
  by (simp add: truncation_marker_def str_def)

text \<open>
  Claim C7. A body longer than 4000 code units is rendered as its first 3980 code units
  followed by the truncation marker, 3993 code units in all; a body of at most 4000 code
  units is rendered as it is; and the rendered body of a body that is shown stands in the
  report after its \<open>STDOUT:\<close> or \<open>STDERR:\<close> heading.
\<close>

theorem render_truncation:
  "(4000 < length body \<longrightarrow>
      truncate body 4000 = take 3980 body @ truncation_marker \<and>
      length (truncate body 4000) = 3993)
   \<and> (length body \<le> 4000 \<longrightarrow> truncate body 4000 = body)
   \<and> (nonblank (stdout p) \<longrightarrow>
        (\<exists>pre post. renderSummary p = pre @ str ''STDOUT:'' @ NL # truncate (stdout p) 4000 @ post))
   \<and> (nonblank (stderr p) \<longrightarrow>
        (\<exists>pre post. renderSummary p = pre @ str ''STDERR:'' @ NL # truncate (stderr p) 4000 @ post))"
proof (intro conjI impI)
  assume "4000 < length body"
  then show "truncate body 4000 = take 3980 body @ truncation_marker"
    by (simp add: truncate_def slice0_def)
next
  assume "4000 < length body"
  then show "length (truncate body 4000) = 3993"
    by (simp add: truncate_def slice0_def length_marker)
next
  assume "length body \<le> 4000"
  then show "truncate body 4000 = body" by (simp add: truncate_def)
next
  assume "nonblank (stdout p)"
  then have "str ''STDOUT:'' @ NL # truncate (stdout p) 4000 \<in> set (render_parts p)"
    using trim_nonblank[of "stdout p"] by (simp add: render_parts_def)
  from join_nl_mem[OF this] show "\<exists>pre post. renderSummary p = pre @ str ''STDOUT:'' @ NL # truncate (stdout p) 4000 @ post"
    by (simp add: renderSummary_def)
next
  assume "nonblank (stderr p)"
  then have "str ''STDERR:'' @ NL # truncate (stderr p) 4000 \<in> set (render_parts p)"
    using trim_nonblank[of "stderr p"] by (simp add: render_parts_def)
  from join_nl_mem[OF this] show "\<exists>pre post. renderSummary p = pre @ str ''STDERR:'' @ NL # truncate (stderr p) 4000 @ post"
    by (simp add: renderSummary_def)
qed

theorem render_truncation_witness:
  "length (truncate (replicate 4001 65) 4000) = 3993
   \<and> truncate (str ''Starting test...'') 4000 = str ''Starting test...''
   \<and> (\<exists>pre post. renderSummary example_payload =
         pre @ str ''STDOUT:'' @ NL # truncate (stdout example_payload) 4000 @ post)
   \<and> (\<exists>pre post. renderSummary example_payload =
         pre @ str ''STDERR:'' @ NL # truncate (stderr example_payload) 4000 @ post)"
proof -
  have a: "4000 < length (replicate 4001 (65::cu))" by simp
  have b: "length (str ''Starting test...'') \<le> 4000" by (simp add: str_def)
  have c: "nonblank (stdout example_payload)"
    by (simp add: nonblank_def is_space_def example_payload_def str_def)
  have d: "nonblank (stderr example_payload)"
    by (simp add: nonblank_def is_space_def example_payload_def scenario1_def str_def)
  show ?thesis
    using render_truncation[of "replicate 4001 65" example_payload]
          render_truncation[of "str ''Starting test...''" example_payload] a b c d
    by blast
qed

text \<open>
  Claim C9. The report has a \<open>STDOUT:\<close> section exactly when the captured standard output
  has a code unit that is not white space, and likewise a \<open>STDERR:\<close> section; a body that is
  empty or all white space leaves the report as if the body were empty.
\<close>

theorem render_omits_blank:
  "((\<exists>part \<in> set (render_parts p). prefix (str ''STDOUT:'') part) \<longleftrightarrow> nonblank (stdout p))
   \<and> ((\<exists>part \<in> set (render_parts p). prefix (str ''STDERR:'') part) \<longleftrightarrow> nonblank (stderr p))
   \<and> (\<not> nonblank (stdout p) \<longrightarrow> renderSummary p = renderSummary (p\<lparr>stdout := []\<rparr>))
   \<and> (\<not> nonblank (stderr p) \<longrightarrow> renderSummary p = renderSummary (p\<lparr>stderr := []\<rparr>))"
proof -
  have t1: "trim (stdout p) \<noteq> [] \<longleftrightarrow> nonblank (stdout p)"
    and t2: "trim (stderr p) \<noteq> [] \<longleftrightarrow> nonblank (stderr p)"
    using trim_nonblank by auto
  have e: "trim [] = []" by (simp add: trim_def)
  show ?thesis
    by (intro conjI)
       (auto simp: render_parts_def renderSummary_def t1 t2 e str_def
          split: option.splits if_splits)
qed

theorem render_omits_blank_witness:
  "(\<exists>part \<in> set (render_parts example_payload). prefix (str ''STDOUT:'') part)
   \<and> (\<exists>part \<in> set (render_parts example_payload). prefix (str ''STDERR:'') part)
   \<and> \<not> (\<exists>part \<in> set (render_parts (example_payload\<lparr>stdout := [32, NL, 9]\<rparr>)).
          prefix (str ''STDOUT:'') part)
   \<and> renderSummary (example_payload\<lparr>stdout := [32, NL, 9]\<rparr>) =
       renderSummary (example_payload\<lparr>stdout := [32, NL, 9]\<rparr>\<lparr>stdout := []\<rparr>)"
proof -
  have c: "nonblank (stdout example_payload)"
    by (simp add: nonblank_def is_space_def example_payload_def str_def)
  have d: "nonblank (stderr example_payload)"
    by (simp add: nonblank_def is_space_def example_payload_def scenario1_def str_def)
  have e: "\<not> nonblank (stdout (example_payload\<lparr>stdout := [32, NL, 9]\<rparr>))"
    by (simp add: nonblank_def is_space_def)
  show ?thesis
    using render_omits_blank[of example_payload]
          render_omits_blank[of "example_payload\<lparr>stdout := [32, NL, 9]\<rparr>"] c d e
    by blast
qed

section \<open>The handler of the \<open>debug\<close> tool\<close>

lemma handler_missing:
  "spec_entry_path w a = Some ep \<Longrightarrow> \<not> existsSync w ep \<Longrightarrow>
     debug_handler w a =
       (\<lparr> content = [Text (str ''Entry file not found: '' @ ep)], isError = True \<rparr>, [])"
  by (auto simp: debug_handler_def spec_entry_path_def spec_working_dir_def truthy_def Let_def
        split: option.splits if_splits)

lemma handler_run:
  "\<not> spec_entry_missing w a \<Longrightarrow>
     debug_handler w a =
       run_child w a (spec_working_dir w a) (spec_entry_path w a) (spec_timeout a)"
  by (auto simp: debug_handler_def spec_entry_missing_def spec_entry_path_def
        spec_working_dir_def spec_timeout_def truthy_def Let_def
        split: option.splits if_splits)

lemma payload_in_content: "PayloadJson p \<in> set ([Text x, PayloadJson p] @ ys)"
  by simp

lemma run_child_Throws:
  "execa w (if arg_language a = node then str ''node'' else str ''python3'')
      (case ep of Some e \<Rightarrow> e # (case args a of Some xs \<Rightarrow> xs | None \<Rightarrow> []) | None \<Rightarrow> [str ''-V''])
      wd t = Throws msg \<Longrightarrow>
   run_child w a wd ep t =
     (\<lparr> content = [Text (str ''Failed to execute: '' @ msg)], isError = True \<rparr>,
      [(if arg_language a = node then str ''node'' else str ''python3'',
        case ep of Some e \<Rightarrow> e # (case args a of Some xs \<Rightarrow> xs | None \<Rightarrow> []) | None \<Rightarrow> [str ''-V''])])"
  unfolding run_child_def Let_def by simp

lemma run_child_Resolves:
  "execa w (if arg_language a = node then str ''node'' else str ''python3'')
      (case ep of Some e \<Rightarrow> e # (case args a of Some xs \<Rightarrow> xs | None \<Rightarrow> []) | None \<Rightarrow> [str ''-V''])
      wd t = Resolves r \<Longrightarrow>
   snd (run_child w a wd ep t) =
      [(if arg_language a = node then str ''node'' else str ''python3'',
        case ep of Some e \<Rightarrow> e # (case args a of Some xs \<Rightarrow> xs | None \<Rightarrow> []) | None \<Rightarrow> [str ''-V''])]
   \<and> isError (fst (run_child w a wd ep t)) = (exit_code r \<noteq> Some 0)
   \<and> (\<exists>pl. PayloadJson pl \<in> set (content (fst (run_child w a wd ep t))) \<and>
          exitCode pl = exit_code r \<and> timedOut pl = timed_out r \<and>
          stdout pl = child_stdout r \<and> stderr pl = child_stderr r \<and>
          error pl = parseError (Some (child_stderr r)))"
proof (intro conjI)
  assume e: "execa w (if arg_language a = node then str ''node'' else str ''python3'')
      (case ep of Some e \<Rightarrow> e # (case args a of Some xs \<Rightarrow> xs | None \<Rightarrow> []) | None \<Rightarrow> [str ''-V''])
      wd t = Resolves r"
  show "snd (run_child w a wd ep t) =
      [(if arg_language a = node then str ''node'' else str ''python3'',
        case ep of Some e \<Rightarrow> e # (case args a of Some xs \<Rightarrow> xs | None \<Rightarrow> []) | None \<Rightarrow> [str ''-V''])]"
    using e unfolding run_child_def Let_def by simp
  show "isError (fst (run_child w a wd ep t)) = (exit_code r \<noteq> Some 0)"
    using e unfolding run_child_def Let_def by simp
  let ?pl = "\<lparr> language = arg_language a,
       command = join_sp ((if arg_language a = node then str ''node'' else str ''python3'') #
          (case ep of Some e \<Rightarrow> e # (case args a of Some xs \<Rightarrow> xs | None \<Rightarrow> []) | None \<Rightarrow> [str ''-V''])),
       cwd = wd, exitCode = exit_code r, timedOut = timed_out r, stdout = child_stdout r,
       stderr = child_stderr r, error = parseError (Some (child_stderr r)) \<rparr>"
  have "PayloadJson ?pl \<in> set (content (fst (run_child w a wd ep t)))"
    unfolding run_child_def Let_def
    by (simp only: e exec_outcome.case fst_conv tool_result.simps) (rule payload_in_content)
  then show "\<exists>pl. PayloadJson pl \<in> set (content (fst (run_child w a wd ep t))) \<and>
          exitCode pl = exit_code r \<and> timedOut pl = timed_out r \<and>
          stdout pl = child_stdout r \<and> stderr pl = child_stderr r \<and>
          error pl = parseError (Some (child_stderr r))"
    by (intro exI[of _ ?pl]) simp
qed

lemma run_child_spawns:
  "\<exists>cmd childArgs. snd (run_child w a wd ep t) = [(cmd, childArgs)] \<and>
     (case execa w cmd childArgs wd t of
        Throws msg \<Rightarrow>
          fst (run_child w a wd ep t) =
            \<lparr> content = [Text (str ''Failed to execute: '' @ msg)], isError = True \<rparr>
      | Resolves r \<Rightarrow>
          isError (fst (run_child w a wd ep t)) = (exit_code r \<noteq> Some 0) \<and>
          (\<exists>pl. PayloadJson pl \<in> set (content (fst (run_child w a wd ep t))) \<and>
             exitCode pl = exit_code r \<and> timedOut pl = timed_out r \<and>
             stdout pl = child_stdout r \<and> stderr pl = child_stderr r \<and>
             error pl = parseError (Some (child_stderr r))))"
proof -
  let ?cmd = "if arg_language a = node then str ''node'' else str ''python3''"
  let ?childArgs = "case ep of Some e \<Rightarrow> e # (case args a of Some xs \<Rightarrow> xs | None \<Rightarrow> [])
                    | None \<Rightarrow> [str ''-V'']"
  show ?thesis
  proof (cases "execa w ?cmd ?childArgs wd t")
    case (Throws msg)
    from run_child_Throws[OF this] Throws show ?thesis
      by (intro exI[of _ ?cmd] exI[of _ ?childArgs]) simp
  next
    case (Resolves r)
    from run_child_Resolves[OF this] Resolves show ?thesis
      by (intro exI[of _ ?cmd] exI[of _ ?childArgs]) simp
  qed
qed

lemma example_missing: "spec_entry_missing (example_world False oc) example_args"
  by (simp add: spec_entry_missing_def spec_entry_path_def spec_working_dir_def
        example_world_def example_args_def str_def)

lemma example_present: "\<not> spec_entry_missing (example_world True oc) example_args"
  by (simp add: spec_entry_missing_def spec_entry_path_def spec_working_dir_def
        example_world_def example_args_def str_def)

lemma example_path: "spec_entry_path (example_world ex oc) example_args = Some (str ''/tmp/app.js'')"
  by (simp add: spec_entry_path_def spec_working_dir_def
        example_world_def example_args_def str_def)

lemma example_execa: "execa (example_world ex oc) c a d t = oc"
  by (simp add: example_world_def)

text \<open>
  Claim C5. When the resolved entry path is given and does not exist, the handler spawns
  nothing and returns a failure whose content is one text and no payload. Otherwise it
  spawns exactly one child: when spawning throws, the result is a failure with the
  message and no payload; when the child resolves, the handler returns normally with the
  payload, and the result is a failure exactly when the exit code is not the number 0
  (a missing exit code included).
\<close>

theorem debug_failure_marking:
  "(spec_entry_missing w a \<longrightarrow>
      (\<exists>ep. spec_entry_path w a = Some ep \<and>
         debug_handler w a =
           (\<lparr> content = [Text (str ''Entry file not found: '' @ ep)], isError = True \<rparr>, [])))
   \<and> (\<not> spec_entry_missing w a \<longrightarrow>
      (\<exists>cmd childArgs. snd (debug_handler w a) = [(cmd, childArgs)] \<and>
         (case execa w cmd childArgs (spec_working_dir w a) (spec_timeout a) of
            Throws msg \<Rightarrow>
              fst (debug_handler w a) =
                \<lparr> content = [Text (str ''Failed to execute: '' @ msg)], isError = True \<rparr>
          | Resolves r \<Rightarrow>
              isError (fst (debug_handler w a)) = (exit_code r \<noteq> Some 0) \<and>
              (\<exists>pl. PayloadJson pl \<in> set (content (fst (debug_handler w a))) \<and>
                 exitCode pl = exit_code r \<and> timedOut pl = timed_out r \<and>
                 stdout pl = child_stdout r \<and> stderr pl = child_stderr r \<and>
                 error pl = parseError (Some (child_stderr r))))))"
proof (intro conjI impI)
  assume "spec_entry_missing w a"
  then obtain ep where "spec_entry_path w a = Some ep" "\<not> existsSync w ep"
    by (auto simp: spec_entry_missing_def split: option.splits)
  then show "\<exists>ep. spec_entry_path w a = Some ep \<and>
         debug_handler w a =
           (\<lparr> content = [Text (str ''Entry file not found: '' @ ep)], isError = True \<rparr>, [])"
    using handler_missing by blast
next
  assume "\<not> spec_entry_missing w a"
  then have eq: "debug_handler w a =
      run_child w a (spec_working_dir w a) (spec_entry_path w a) (spec_timeout a)"
    by (rule handler_run)
  show "\<exists>cmd childArgs. snd (debug_handler w a) = [(cmd, childArgs)] \<and>
         (case execa w cmd childArgs (spec_working_dir w a) (spec_timeout a) of
            Throws msg \<Rightarrow>
              fst (debug_handler w a) =
                \<lparr> content = [Text (str ''Failed to execute: '' @ msg)], isError = True \<rparr>
          | Resolves r \<Rightarrow>
              isError (fst (debug_handler w a)) = (exit_code r \<noteq> Some 0) \<and>
              (\<exists>pl. PayloadJson pl \<in> set (content (fst (debug_handler w a))) \<and>
                 exitCode pl = exit_code r \<and> timedOut pl = timed_out r \<and>
                 stdout pl = child_stdout r \<and> stderr pl = child_stderr r \<and>
                 error pl = parseError (Some (child_stderr r))))"
    unfolding eq by (rule run_child_spawns)
qed

theorem debug_failure_marking_witness:
  "debug_handler (example_world False (Throws [])) example_args =
     (\<lparr> content = [Text (str ''Entry file not found: '' @ str ''/tmp/app.js'')], isError = True \<rparr>, [])
   \<and> fst (debug_handler (example_world True (Throws (str ''spawn node ENOENT''))) example_args) =
       \<lparr> content = [Text (str ''Failed to execute: '' @ str ''spawn node ENOENT'')], isError = True \<rparr>
   \<and> isError (fst (debug_handler (example_world True (Resolves (example_child (Some 1)))) example_args))
   \<and> isError (fst (debug_handler (example_world True (Resolves (example_child None))) example_args))
   \<and> \<not> isError (fst (debug_handler (example_world True (Resolves (example_child (Some 0)))) example_args))"
  using debug_failure_marking[of "example_world False (Throws [])" example_args]
        debug_failure_marking[of "example_world True (Throws (str ''spawn node ENOENT''))" example_args]
        debug_failure_marking[of "example_world True (Resolves (example_child (Some 1)))" example_args]
        debug_failure_marking[of "example_world True (Resolves (example_child None))" example_args]
        debug_failure_marking[of "example_world True (Resolves (example_child (Some 0)))" example_args]
  by (auto simp: example_missing example_present example_path example_execa example_child_def)

section \<open>The stack summarizer\<close>

text \<open>
  Claim C8. For a text given by its lines, \<open>summarizeStack\<close> looks at the first line that is
  not blank only: when it has the form \<^verbatim>\<open><dotted identifier>Error: <message>\<close> the result
  is that kind, a colon, a space and that message; otherwise, when it has the form
  \<^verbatim>\<open><identifier>: <message>\<close>, likewise; otherwise the result is the line itself; and when
  every line is blank the result is the first 200 code units of the text.
\<close>

theorem summarize_first_nonblank_line:
  assumes "lines \<noteq> []" and "\<forall>l \<in> set lines. NL \<notin> set l"
  shows "summarizeStack (join_nl lines) =
     (case filter nonblank lines of
        [] \<Rightarrow> take 200 (join_nl lines)
      | l # _ \<Rightarrow>
          (case spec_node_kind_msg l of
             Some (k, m) \<Rightarrow> k @ str '': '' @ m
           | None \<Rightarrow>
               (case spec_py_kind_msg l of
                  Some (k, m) \<Rightarrow> k @ str '': '' @ m
                | None \<Rightarrow> l)))"
proof -
  have fl: "firstLine (join_nl lines) = (case filter nonblank lines of [] \<Rightarrow> [] | l # _ \<Rightarrow> l)"
    using assms by (simp add: firstLine_spec split_nl_join)
  show ?thesis
  proof (cases "filter nonblank lines")
    case Nil
    then have "firstLine (join_nl lines) = []" using fl by simp
    then show ?thesis using Nil
      by (simp add: summarizeStack_def Let_def re_exec_nodeLineRe re_exec_pyTypeRe
            spec_node_kind_msg_def spec_py_kind_msg_def truthy_type_def slice0_take str_def)
  next
    case (Cons l ls)
    then have f: "firstLine (join_nl lines) = l" using fl by simp
    have "l \<in> set (filter nonblank lines)" using Cons by simp
    then have ne: "l \<noteq> []" using nonblank_nonempty by auto
    show ?thesis
    proof (cases "spec_node_kind_msg l")
      case (Some km)
      then obtain k m where km: "spec_node_kind_msg l = Some (k, m)" by (cases km) auto
      then show ?thesis using Cons f spec_node_kind_nonempty[OF km]
        by (simp add: summarizeStack_def Let_def re_exec_nodeLineRe truthy_type_def
              group_def tmpl_def)
    next
      case None
      note n = None
      show ?thesis
      proof (cases "spec_py_kind_msg l")
        case (Some km)
        then obtain k m where km: "spec_py_kind_msg l = Some (k, m)" by (cases km) auto
        then show ?thesis using Cons f n spec_py_kind_nonempty[OF km]
          by (simp add: summarizeStack_def Let_def re_exec_nodeLineRe re_exec_pyTypeRe
                truthy_type_def group_def tmpl_def)
      next
        case None
        then show ?thesis using Cons f n ne
          by (simp add: summarizeStack_def Let_def re_exec_nodeLineRe re_exec_pyTypeRe
                truthy_type_def)
      qed
    qed
  qed
qed

theorem summarize_first_nonblank_line_witness:
  "summarizeStack (join_nl example_trace_lines) = str ''app.ValidationError: bad input''"
proof -
  have 1: "example_trace_lines \<noteq> []"
    and 2: "\<forall>l \<in> set example_trace_lines. NL \<notin> set l"
    by (simp_all add: example_trace_lines_def str_def)
  have 3: "(case filter nonblank example_trace_lines of
        [] \<Rightarrow> take 200 (join_nl example_trace_lines)
      | l # _ \<Rightarrow>
          (case spec_node_kind_msg l of
             Some (k, m) \<Rightarrow> k @ str '': '' @ m
           | None \<Rightarrow>
               (case spec_py_kind_msg l of
                  Some (k, m) \<Rightarrow> k @ str '': '' @ m
                | None \<Rightarrow> l))) = str ''app.ValidationError: bad input''"
    by code_simp
  show ?thesis
    by (rule trans[OF summarize_first_nonblank_line[OF 1 2] 3])
qed

section \<open>Kind and message of a traceback\<close>

text \<open>
  Claim C4. When \<open>parseError\<close> returns a record of the family \<open>python\<close> for a text given by
  its lines, kind and message come from the last line that is not blank: when that line
  has the form \<^verbatim>\<open><identifier>: <message>\<close> they are that identifier and that message;
  otherwise the kind is \<open>Error\<close> and the message is that line as it is.
\<close>

theorem python_kind_and_message:
  assumes "lines \<noteq> []" and "\<forall>l \<in> set lines. NL \<notin> set l"
    and "parseError (Some (join_nl lines)) = Some r" and "runtime r = python"
  shows "(type r, message r) =
     (case spec_py_kind_msg (spec_last_nonblank lines) of
        Some (k, m) \<Rightarrow> (k, m)
      | None \<Rightarrow> (str ''Error'', spec_last_nonblank lines))"
  using assms(3,4) split_nl_join[OF assms(1,2)]
  by (auto simp: parseError_def Let_def lastLineText_spec re_exec_pyTypeRe group_def
        split: option.splits if_splits prod.splits)

lemma scenario2_join: "scenario2 = join_nl scenario2_lines"
  by (simp add: scenario2_def scenario2_lines_def)

theorem python_kind_and_message_witness:
  "(type scenario2_record, message scenario2_record) =
     (str ''ZeroDivisionError'', str ''division by zero'')"
proof -
  have 1: "scenario2_lines \<noteq> []"
    and 2: "\<forall>l \<in> set scenario2_lines. NL \<notin> set l"
    by (simp_all add: scenario2_lines_def str_def)
  have 3: "parseError (Some (join_nl scenario2_lines)) = Some scenario2_record"
    using parseError_scenario2 by (simp add: scenario2_join)
  have 4: "runtime scenario2_record = python" by (simp add: scenario2_record_def)
  have 5: "(case spec_py_kind_msg (spec_last_nonblank scenario2_lines) of
        Some (k, m) \<Rightarrow> (k, m)
      | None \<Rightarrow> (str ''Error'', spec_last_nonblank scenario2_lines)) =
     (str ''ZeroDivisionError'', str ''division by zero'')"
    by code_simp
  show ?thesis
    by (rule trans[OF python_kind_and_message[OF 1 2 3 4] 5])
qed

section \<open>The Node branch\<close>

text \<open>
  Claim C3. When \<open>parseError\<close> returns a record of the family \<open>node\<close>, the text is the
  anchor (kind, colon, white space, message), a line feed and the stack of the record;
  \<open>file\<close>, \<open>line\<close> and \<open>column\<close> are the first location of that stack, so they are taken
  from the stack alone, they occur in it, and they are absent when the stack has no
  location. A location before the anchor or inside the message is never used.
\<close>

theorem node_location_from_stack:
  assumes "parseError (Some s) = Some r" and "runtime r = node"
  shows "(\<exists>pre ws. s = pre @ type r @ COLON # ws @ message r @ NL # stack r \<and>
            list_all is_space ws)
       \<and> (file r, line r, column r) = spec_first_loc (stack r)
       \<and> (\<forall>f. file r = Some f \<longrightarrow>
            (\<exists>u l c v. stack r = u @ f @ COLON # l @ COLON # c @ v \<and>
               line r = Some (Number l) \<and> column r = Some (Number c)))
       \<and> (first_at spec_loc_here (stack r) = None \<longrightarrow>
            file r = None \<and> line r = None \<and> column r = None)"
proof -
  from parseError_node_sound[OF assms] obtain pre ws where
    h: "s = pre @ type r @ COLON # ws @ message r @ NL # stack r" "list_all is_space ws"
       "(file r, line r, column r) = spec_first_loc (stack r)"
    by blast
  have 3: "\<exists>u l c v. stack r = u @ f @ COLON # l @ COLON # c @ v \<and>
               line r = Some (Number l) \<and> column r = Some (Number c)"
    if f: "file r = Some f" for f
  proof -
    from f h(3) obtain l c where
      fa: "first_at spec_loc_here (stack r) = Some (f, l, c)"
      and lc: "line r = Some (Number l)" "column r = Some (Number c)"
      by (auto simp: spec_first_loc_def split: option.splits)
    from first_at_Some[OF fa] obtain u t where
      ut: "stack r = u @ t" "spec_loc_here t = Some (f, l, c)" by blast
    from spec_loc_here_Some[OF ut(2)] obtain v where "t = f @ COLON # l @ COLON # c @ v" by blast
    then show ?thesis using ut(1) lc by (intro exI[of _ u] exI[of _ l] exI[of _ c] exI[of _ v]) simp
  qed
  have 4: "file r = None \<and> line r = None \<and> column r = None"
    if "first_at spec_loc_here (stack r) = None"
    using that h(3) by (simp add: spec_first_loc_def)
  show ?thesis using h(1,2,3) 3 4 by blast
qed

theorem node_location_from_stack_witness:
  "(\<exists>pre ws. node_example =
       pre @ type node_example_record @ COLON # ws @ message node_example_record @ NL #
       stack node_example_record \<and> list_all is_space ws)
   \<and> (file node_example_record, line node_example_record, column node_example_record) =
       spec_first_loc (stack node_example_record)
   \<and> file node_example_record = Some (str ''/tmp/app.js'')"
proof -
  have "runtime node_example_record = node" by (simp add: node_example_record_def)
  from node_location_from_stack[OF parseError_node_example this]
  show ?thesis by (simp add: node_example_record_def)
qed

text \<open>
  An anchor line is found when it is the first line of the text that begins with a header
  \<^verbatim>\<open><dotted identifier>Error:\<close> and its message begins with a code unit that is not white
  space (lemma \<open>node_anchor_record\<close>): then the record has that kind, that message, the rest
  of the text as stack and the first location of the stack. So it is for the output of the
  failing Node program.
\<close>

lemma node_anchor_example:
  "parseError (Some node_example) =
     Some \<lparr> runtime = node, type = str ''TypeError'', message = str ''bad /x/y.js:1:1 here'',
            file = fst (spec_first_loc (str ''    at Object.<anonymous> (/tmp/app.js:12:5)'' @ [NL])),
            line = fst (snd (spec_first_loc (str ''    at Object.<anonymous> (/tmp/app.js:12:5)'' @ [NL]))),
            column = snd (snd (spec_first_loc (str ''    at Object.<anonymous> (/tmp/app.js:12:5)'' @ [NL]))),
            stack = str ''    at Object.<anonymous> (/tmp/app.js:12:5)'' @ [NL] \<rparr>"
proof (rule node_anchor_record[where pre = "str ''/tmp/app.js:12:3'' @ NL # str ''    foo.bar'' @ [NL, NL]"
      and ws = "[32]"])
  show "node_example =
     (str ''/tmp/app.js:12:3'' @ NL # str ''    foo.bar'' @ [NL, NL]) @ str ''TypeError'' @ COLON #
     [32] @ str ''bad /x/y.js:1:1 here'' @ NL # str ''    at Object.<anonymous> (/tmp/app.js:12:5)'' @ [NL]"
    by (simp add: node_example_def str_def)
  show "first_pos spec_header_here None node_example =
     Some (length (str ''/tmp/app.js:12:3'' @ NL # str ''    foo.bar'' @ [NL, NL]))"
    by code_simp
  show "dotted_error (str ''TypeError'')" by code_simp
  show "list_all is_space [32]" by (simp add: is_space_def)
  show "str ''bad /x/y.js:1:1 here'' \<noteq> []" by (simp add: str_def)
  show "\<not> is_space (hd (str ''bad /x/y.js:1:1 here''))" by (simp add: str_def is_space_def)
  show "NL \<notin> set (str ''bad /x/y.js:1:1 here'')" by (simp add: str_def)
  show "str ''    at Object.<anonymous> (/tmp/app.js:12:5)'' @ [NL] \<noteq> []" by simp
qed

text \<open>
  Claim C1 at a text whose first header has nothing after its colon. The text has the
  anchor line \<open>TypeError: x\<close>, followed by a further line; the record has the kind \<open>Error\<close>
  and as message the line \<open>foo\<close>, which is the line after the header, since the white
  space after the colon of the pattern also takes line feeds.
\<close>

theorem empty_header_takes_next_line:
  "empty_header_first =
     (str ''Error:'' @ NL # str ''foo'' @ [NL]) @ str ''TypeError'' @ COLON # [32] @ str ''x'' @ NL #
     str ''    at f (/a.js:1:2)''
   \<and> parseError (Some empty_header_first) =
     Some \<lparr> runtime = node, type = str ''Error'', message = str ''foo'',
            file = Some (str ''/a.js''), line = Some 1, column = Some 2,
            stack = str ''TypeError: x'' @ NL # str ''    at f (/a.js:1:2)'' \<rparr>"
  by code_simp

section \<open>The Python branch\<close>

lemma sublist_nonempty: "sublist xs s \<Longrightarrow> xs \<noteq> [] \<Longrightarrow> s \<noteq> []"
  by (cases s) auto

text \<open>
  Claim C2 as the code has it. For a text given by its lines that contains the marker
  \<open>Traceback (most recent call last):\<close> and does not match the family-A anchor pattern,
  \<open>parseError\<close> returns a record of the family \<open>python\<close> without column, whose \<open>file\<close> and
  \<open>line\<close> are those of the first frame \<^verbatim>\<open>File "<path>", line <N>\<close> of the last line that has
  a frame, and are absent when no line has one.
\<close>

theorem traceback_last_frame:
  assumes "lines \<noteq> []" and "\<forall>l \<in> set lines. NL \<notin> set l"
    and "sublist (str ''Traceback (most recent call last):'') (join_nl lines)"
    and "\<not> family_A_match (join_nl lines)"
  shows "\<exists>r. parseError (Some (join_nl lines)) = Some r \<and> runtime r = python \<and>
           column r = None \<and>
           (file r, line r) =
             (case spec_last_frame lines of
                None \<Rightarrow> (None, None)
              | Some (p, d) \<Rightarrow> (Some p, Some (Number d)))"
proof -
  have ne: "join_nl lines \<noteq> []"
    using sublist_nonempty[OF assms(3)] by (simp add: str_def)
  have n: "re_exec nodeRe (join_nl lines) = None"
    using assms(4) by (simp add: family_A_match_iff)
  have t: "re_test tracebackRe (join_nl lines)"
    using assms(3) by (simp add: re_test_traceback)
  show ?thesis
    using ne n t split_nl_join[OF assms(1,2)]
    by (cases "spec_last_frame lines")
       (auto simp: parseError_def Let_def scan_lines_spec split: prod.splits)
qed

theorem traceback_last_frame_witness:
  "\<exists>r. parseError (Some (join_nl scenario2_lines)) = Some r \<and> runtime r = python \<and>
       column r = None \<and> (file r, line r) = (Some (str ''/tmp/app.py''), Some 3)"
proof -
  have 1: "scenario2_lines \<noteq> []"
    and 2: "\<forall>l \<in> set scenario2_lines. NL \<notin> set l"
    by (simp_all add: scenario2_lines_def str_def)
  have 3: "sublist (str ''Traceback (most recent call last):'') (join_nl scenario2_lines)"
    using scenario2_eval(1) by (simp add: re_test_traceback scenario2_join)
  have 4: "\<not> family_A_match (join_nl scenario2_lines)"
    using scenario2_eval(2) by (simp add: family_A_match_iff scenario2_join)
  from traceback_last_frame[OF 1 2 3 4] show ?thesis
    by (simp add: scenario2_eval(3,4))
qed

text \<open>
  Claim C2 as stated fails where a line has two frames: the last frame of the whole text is
  that of \<open>b.py\<close>, line 2, and the record has the first frame of that line.
\<close>

theorem traceback_last_occurrence_counterexample:
  "sublist (str ''Traceback (most recent call last):'') two_frames
   \<and> \<not> family_A_match two_frames
   \<and> last_at spec_frame_here two_frames = Some (str ''b.py'', str ''2'')
   \<and> parseError (Some two_frames) =
       Some \<lparr> runtime = python, type = str ''ValueError'', message = str ''x'',
              file = Some (str ''a.py''), line = Some 1, column = None, stack = two_frames \<rparr>"
  using two_frames_eval by (simp add: re_test_traceback family_A_match_iff)

section \<open>No error detected\<close>

text \<open>
  \<open>parseError\<close> returns nothing for no text, for the empty text, and for a text that neither
  matches the family-A anchor pattern nor contains the marker.
\<close>

lemma parseError_absent:
  "parseError None = None"
  "parseError (Some []) = None"
  "\<not> family_A_match s \<Longrightarrow> \<not> sublist (str ''Traceback (most recent call last):'') s \<Longrightarrow>
     parseError (Some s) = None"
  by (simp_all add: parseError_def family_A_match_iff re_test_traceback)

text \<open>
  Claim C6 at a text whose header line ends at the colon. None of its three lines has the
  form \<^verbatim>\<open><dotted identifier>Error: <message>\<close> with a message (the first has the kind and an
  empty message, the others are not of the form), and it does not contain the marker; yet
  \<open>parseError\<close> returns a record, whose message is the second line.
\<close>

theorem header_only_line_gives_record:
  "map spec_node_kind_msg message_on_next_line = [Some (str ''TypeError'', []), None, None]
   \<and> \<not> re_test tracebackRe (join_nl message_on_next_line)
   \<and> parseError (Some (join_nl message_on_next_line)) =
       Some \<lparr> runtime = node, type = str ''TypeError'', message = str ''foo'',
              file = None, line = None, column = None, stack = str ''bar'' \<rparr>"
  by code_simp

end
